theory Spec2Isabelle
  imports Complex_Main "HOL-Library.AList"
begin

section \<open>Python values\<close>

text \<open>
  The scorer of \<^verbatim>\<open>tasks/scoring.py\<close> works on dictionaries decoded from JSON, so a field
  can hold any JSON value, or a \<^verbatim>\<open>datetime.date\<close>. Python's \<^verbatim>\<open>float\<close> is modelled by
  exact rationals together with the three special values; rounding of binary floating
  point is not modelled. A date is its proleptic ordinal (a day number). A string value
  holds the characters of the Python string, one \<open>char\<close> for each.
\<close>

datatype py_error =
  ValueError | TypeError | AttributeError | OverflowError | KeyError | RecursionError

datatype pyfloat = Fin rat | PosInf | NegInf | NaN

datatype pyval =
    PNone
  | PBool bool
  | PInt int
  | PFloat pyfloat
  | PStr string
  | PDate int
  | PList "pyval list"
  | PDict "(string \<times> pyval) list"

type_synonym pydict = "(string \<times> pyval) list"

text \<open>\<^verbatim>\<open>d.get(key)\<close> and \<^verbatim>\<open>d.get(key, default)\<close>.\<close>

definition dict_get :: "pydict \<Rightarrow> string \<Rightarrow> pyval" where
  "dict_get d k = (case map_of d k of None \<Rightarrow> PNone | Some v \<Rightarrow> v)"

definition dict_get_default :: "pydict \<Rightarrow> string \<Rightarrow> pyval \<Rightarrow> pyval" where
  "dict_get_default d k dflt = (case map_of d k of None \<Rightarrow> dflt | Some v \<Rightarrow> v)"

text \<open>
  What the scorer reads from outside: \<^verbatim>\<open>date.today()\<close>, and the two standard-library
  parsers \<^verbatim>\<open>datetime.strptime(s, '%Y-%m-%d').date()\<close> and \<^verbatim>\<open>float(s)\<close> on a string, which
  raise \<^verbatim>\<open>ValueError\<close> (here \<open>None\<close>) on text they do not accept.
\<close>

record pyenv =
  today :: int
  strptime_ymd :: "string \<Rightarrow> int option"
  float_of_str :: "string \<Rightarrow> pyfloat option"

subsection \<open>Equality, membership and conversion\<close>

text \<open>\<open>==\<close> on floats: a NaN equals nothing, itself included.\<close>

fun flt_eq :: "pyfloat \<Rightarrow> pyfloat \<Rightarrow> bool" where
  "flt_eq (Fin a) (Fin b) = (a = b)"
| "flt_eq PosInf PosInf = True"
| "flt_eq NegInf NegInf = True"
| "flt_eq _ _ = False"

text \<open>The numeric value of a \<^verbatim>\<open>bool\<close>, \<^verbatim>\<open>int\<close> or \<^verbatim>\<open>float\<close>: Python compares them by
  value across the three types (\<^verbatim>\<open>1 == 1.0 == True\<close>).\<close>

fun num_of :: "pyval \<Rightarrow> pyfloat option" where
  "num_of (PBool b) = Some (Fin (if b then 1 else 0))"
| "num_of (PInt n) = Some (Fin (of_int n))"
| "num_of (PFloat f) = Some f"
| "num_of _ = None"

text \<open>
  \<open>x == y\<close>. Lists are equal elementwise, dictionaries when they bind the same keys to
  equal values (a \<open>pydict\<close> holds each key once, as a decoded JSON object does).
\<close>

fun py_eq :: "pyval \<Rightarrow> pyval \<Rightarrow> bool" where
  "py_eq (PList xs) y = (case y of PList ys \<Rightarrow> list_all2 py_eq xs ys | _ \<Rightarrow> False)"
| "py_eq (PDict a) y =
     (case y of
        PDict b \<Rightarrow> length a = length b \<and>
          list_all (\<lambda>(k, v). case map_of b k of None \<Rightarrow> False | Some v' \<Rightarrow> py_eq v v') a
      | _ \<Rightarrow> False)"
| "py_eq PNone y = (y = PNone)"
| "py_eq (PStr s) y = (y = PStr s)"
| "py_eq (PDate d) y = (y = PDate d)"
| "py_eq x y = (case (num_of x, num_of y) of (Some a, Some b) \<Rightarrow> flt_eq a b | _ \<Rightarrow> False)"

text \<open>\<^verbatim>\<open>t in s\<close> on two strings: \<open>t\<close> occurs in \<open>s\<close> as a contiguous piece.\<close>

fun is_substring :: "string \<Rightarrow> string \<Rightarrow> bool" where
  "is_substring t [] = (t = [])"
| "is_substring t (c # cs) = (take (length t) (c # cs) = t \<or> is_substring t cs)"

text \<open>
  \<^verbatim>\<open>x in container\<close>. A list is searched with \<open>==\<close>; a string accepts only a string on
  the left; a dictionary is searched by key and so needs a hashable \<open>x\<close>; anything else
  is not iterable. The failures are all \<^verbatim>\<open>TypeError\<close>. Python finds an element also
  by being the same object, which differs from \<open>==\<close> for a NaN only; the identity of
  objects is not modelled.
\<close>

definition py_contains :: "pyval \<Rightarrow> pyval \<Rightarrow> py_error + bool" where
  "py_contains x container =
     (case container of
        PList xs \<Rightarrow> Inr (list_ex (\<lambda>e. py_eq e x) xs)
      | PStr s \<Rightarrow> (case x of PStr t \<Rightarrow> Inr (is_substring t s) | _ \<Rightarrow> Inl TypeError)
      | PDict kvs \<Rightarrow>
          (case x of
             PList ys \<Rightarrow> Inl TypeError
           | PDict d \<Rightarrow> Inl TypeError
           | PStr t \<Rightarrow> Inr (t \<in> set (map fst kvs))
           | _ \<Rightarrow> Inr False)
      | _ \<Rightarrow> Inl TypeError)"

text \<open>
  \<^verbatim>\<open>float(x)\<close>. An \<^verbatim>\<open>int\<close> beyond the range of a double raises \<^verbatim>\<open>OverflowError\<close>: the
  largest integer that still rounds to a finite double is below \<open>2^1024 - 2^970\<close>.
\<close>

definition float_max_int :: int where
  "float_max_int = 2 ^ 1024 - 2 ^ 970"

definition py_float :: "pyenv \<Rightarrow> pyval \<Rightarrow> py_error + pyfloat" where
  "py_float env v =
     (case v of
        PNone \<Rightarrow> Inl TypeError
      | PBool b \<Rightarrow> Inr (Fin (if b then 1 else 0))
      | PInt n \<Rightarrow> (if \<bar>n\<bar> < float_max_int then Inr (Fin (of_int n)) else Inl OverflowError)
      | PFloat f \<Rightarrow> Inr f
      | PStr s \<Rightarrow> (case float_of_str env s of None \<Rightarrow> Inl ValueError | Some f \<Rightarrow> Inr f)
      | PDate d \<Rightarrow> Inl TypeError
      | PList xs \<Rightarrow> Inl TypeError
      | PDict kvs \<Rightarrow> Inl TypeError)"

text \<open>\<^verbatim>\<open>round(x, 2)\<close>: to the nearest hundredth, a tie going to the even neighbour.\<close>

definition round_half_even :: "rat \<Rightarrow> int" where
  "round_half_even x =
     (let f = \<lfloor>x\<rfloor>; d = x - of_int f
      in if d < 1 / 2 then f else if 1 / 2 < d then f + 1 else if even f then f else f + 1)"

definition round2 :: "rat \<Rightarrow> rat" where
  "round2 x = of_int (round_half_even (x * 100)) / 100"

section \<open>Strategy weights\<close>

record weights =
  w_urgency :: rat
  w_importance :: rat
  w_effort :: rat
  w_dependencies :: rat

text \<open>\<^verbatim>\<open>TaskScorer._get_weights\<close>: a dictionary lookup with the \<^verbatim>\<open>smart_balance\<close> entry as
  the default.\<close>

definition smart_balance :: weights where
  "smart_balance =
     \<lparr>w_urgency = 35 / 100, w_importance = 30 / 100, w_effort = 10 / 100, w_dependencies = 25 / 100\<rparr>"

definition fastest_wins :: weights where
  "fastest_wins =
     \<lparr>w_urgency = 20 / 100, w_importance = 20 / 100, w_effort = 50 / 100, w_dependencies = 10 / 100\<rparr>"

definition high_impact :: weights where
  "high_impact =
     \<lparr>w_urgency = 15 / 100, w_importance = 60 / 100, w_effort = 5 / 100, w_dependencies = 20 / 100\<rparr>"

definition deadline_driven :: weights where
  "deadline_driven =
     \<lparr>w_urgency = 70 / 100, w_importance = 15 / 100, w_effort = 5 / 100, w_dependencies = 10 / 100\<rparr>"

definition strategies :: "(string \<times> weights) list" where
  "strategies =
     [(''smart_balance'', smart_balance),
      (''fastest_wins'', fastest_wins),
      (''high_impact'', high_impact),
      (''deadline_driven'', deadline_driven)]"

definition get_weights :: "string \<Rightarrow> weights" where
  "get_weights strategy =
     (case map_of strategies strategy of
        None \<Rightarrow> smart_balance
      | Some w \<Rightarrow> w)"

text \<open>\<^verbatim>\<open>TaskScorer.__init__\<close>: the scorer keeps the strategy name and its weights.\<close>

record task_scorer =
  strategy :: string
  weights :: weights

definition TaskScorer :: "string \<Rightarrow> task_scorer" where
  "TaskScorer name = \<lparr>strategy = name, weights = get_weights name\<rparr>"

section \<open>The four factor scores\<close>

subsection \<open>Urgency\<close>

text \<open>The branch taken once \<^verbatim>\<open>days_until\<close> is known.\<close>

definition urgency_of_days :: "int \<Rightarrow> rat" where
  "urgency_of_days days_until =
     (if days_until < 0 then min 10 (10 + of_int \<bar>days_until\<bar> * (1 / 10))
      else if days_until = 0 then 95 / 10
      else if days_until = 1 then 9
      else if days_until \<le> 3 then 8
      else if days_until \<le> 7 then 6
      else if days_until \<le> 14 then 4
      else if days_until \<le> 30 then 2
      else max 0 (2 - (of_int days_until - 30) / 30))"

text \<open>\<^verbatim>\<open>(due_date - today).days\<close>, after a string has been parsed. Subtracting a date from
  anything but a date raises \<^verbatim>\<open>TypeError\<close>.\<close>

definition days_until_due :: "pyenv \<Rightarrow> pyval \<Rightarrow> py_error + int" where
  "days_until_due env due_date =
     (case due_date of
        PStr s \<Rightarrow> (case strptime_ymd env s of None \<Rightarrow> Inl ValueError | Some d \<Rightarrow> Inr (d - today env))
      | PDate d \<Rightarrow> Inr (d - today env)
      | PNone \<Rightarrow> Inl TypeError
      | PBool b \<Rightarrow> Inl TypeError
      | PInt n \<Rightarrow> Inl TypeError
      | PFloat f \<Rightarrow> Inl TypeError
      | PList xs \<Rightarrow> Inl TypeError
      | PDict kvs \<Rightarrow> Inl TypeError)"

text \<open>\<^verbatim>\<open>calculate_urgency_score\<close>: the handler catches \<^verbatim>\<open>ValueError\<close>, \<^verbatim>\<open>TypeError\<close> and
  \<^verbatim>\<open>AttributeError\<close> and answers 5.0; any other exception leaves the function.\<close>

definition calculate_urgency_score :: "pyenv \<Rightarrow> pyval \<Rightarrow> py_error + rat" where
  "calculate_urgency_score env due_date =
     (case days_until_due env due_date of
        Inr days_until \<Rightarrow> Inr (urgency_of_days days_until)
      | Inl e \<Rightarrow> (if e \<in> {ValueError, TypeError, AttributeError} then Inr 5 else Inl e))"


subsection \<open>Importance\<close>

text \<open>
  \<^verbatim>\<open>max(1.0, min(10.0, importance))\<close> on the converted value. \<^verbatim>\<open>min\<close> and \<^verbatim>\<open>max\<close> keep their
  first argument unless the second compares strictly smaller (larger), and every
  comparison with a NaN is false: so a NaN gives 10.0.
\<close>

definition clamp_importance :: "pyfloat \<Rightarrow> rat" where
  "clamp_importance f =
     (case f of
        Fin x \<Rightarrow> max 1 (min 10 x)
      | PosInf \<Rightarrow> 10
      | NegInf \<Rightarrow> 1
      | NaN \<Rightarrow> 10)"

text \<open>\<^verbatim>\<open>calculate_importance_score\<close>: the handler catches \<^verbatim>\<open>ValueError\<close> and \<^verbatim>\<open>TypeError\<close>
  only.\<close>

definition calculate_importance_score :: "pyenv \<Rightarrow> pyval \<Rightarrow> py_error + rat" where
  "calculate_importance_score env importance =
     (case py_float env importance of
        Inr f \<Rightarrow> Inr (clamp_importance f)
      | Inl e \<Rightarrow> (if e \<in> {ValueError, TypeError} then Inr 5 else Inl e))"

subsection \<open>Effort\<close>

text \<open>The brackets on a finite number of hours, after \<^verbatim>\<open>if hours < 0: hours = 0\<close>.\<close>

definition effort_of_hours :: "rat \<Rightarrow> rat" where
  "effort_of_hours h =
     (let hours = (if h < 0 then 0 else h)
      in if hours \<le> 1 / 2 then 10
         else if hours \<le> 1 then 9
         else if hours \<le> 2 then 8
         else if hours \<le> 4 then 6
         else if hours \<le> 8 then 4
         else if hours \<le> 16 then 2
         else max 0 (2 - (hours - 16) / 8))"

text \<open>
  On the special values: \<open>-inf\<close> is negative, so it becomes 0 hours; \<open>+inf\<close> and NaN fail
  every bracket test and reach \<^verbatim>\<open>max(0, 2 - (hours - 16) / 8)\<close>, which is \<open>0\<close> for both
  (\<open>-inf\<close> is below 0, and a NaN never compares larger).
\<close>

definition effort_of :: "pyfloat \<Rightarrow> rat" where
  "effort_of f =
     (case f of
        Fin h \<Rightarrow> effort_of_hours h
      | NegInf \<Rightarrow> effort_of_hours 0
      | PosInf \<Rightarrow> 0
      | NaN \<Rightarrow> 0)"

definition calculate_effort_score :: "pyenv \<Rightarrow> pyval \<Rightarrow> py_error + rat" where
  "calculate_effort_score env estimated_hours =
     (case py_float env estimated_hours of
        Inr f \<Rightarrow> Inr (effort_of f)
      | Inl e \<Rightarrow> (if e \<in> {ValueError, TypeError} then Inr 5 else Inl e))"

subsection \<open>Dependencies\<close>

text \<open>
  The test of the loop body of \<^verbatim>\<open>calculate_dependency_score\<close>:
  \<^verbatim>\<open>task_id in task.get('dependencies', [])\<close>. An entry of \<^verbatim>\<open>all_tasks\<close> that is no
  dictionary has no \<^verbatim>\<open>get\<close> (\<^verbatim>\<open>AttributeError\<close>); the membership test can raise
  \<^verbatim>\<open>TypeError\<close>.
\<close>

definition names_dependency :: "pyval \<Rightarrow> pyval \<Rightarrow> py_error + bool" where
  "names_dependency task_id task =
     (case task of
        PDict d \<Rightarrow> py_contains task_id (dict_get_default d ''dependencies'' (PList []))
      | _ \<Rightarrow> Inl AttributeError)"

text \<open>The loop, with the running \<^verbatim>\<open>dependent_count\<close>.\<close>

fun count_dependents :: "pyval \<Rightarrow> pyval list \<Rightarrow> nat \<Rightarrow> py_error + nat" where
  "count_dependents task_id [] dependent_count = Inr dependent_count"
| "count_dependents task_id (task # rest) dependent_count =
     (case names_dependency task_id task of
        Inl e \<Rightarrow> Inl e
      | Inr b \<Rightarrow>
          count_dependents task_id rest (if b then dependent_count + 1 else dependent_count))"

definition dependency_policy :: "nat \<Rightarrow> rat" where
  "dependency_policy dependent_count =
     (if dependent_count = 0 then 0
      else if dependent_count = 1 then 4
      else if dependent_count = 2 then 7
      else min 10 (7 + (of_nat dependent_count - 2) * (15 / 10)))"

text \<open>\<^verbatim>\<open>calculate_dependency_score\<close>: \<^verbatim>\<open>except Exception\<close> catches every failure of the
  loop and answers 0.0.\<close>

definition calculate_dependency_score :: "pyval \<Rightarrow> pyval list \<Rightarrow> rat" where
  "calculate_dependency_score task_id all_tasks =
     (case count_dependents task_id all_tasks 0 of
        Inr dependent_count \<Rightarrow> dependency_policy dependent_count
      | Inl e \<Rightarrow> 0)"

section \<open>Aggregation\<close>

record score_components =
  urgency :: rat
  importance :: rat
  effort :: rat
  dependencies :: rat

record score_result =
  score :: rat
  components :: score_components
  error :: "py_error option"

text \<open>The result of the \<^verbatim>\<open>except Exception\<close> branch of \<^verbatim>\<open>score_task\<close>; \<open>error\<close> stands for
  \<^verbatim>\<open>str(e)\<close>.\<close>

definition failed_result :: "py_error \<Rightarrow> score_result" where
  "failed_result e =
     \<lparr>score = 0,
      components = \<lparr>urgency = 0, importance = 0, effort = 0, dependencies = 0\<rparr>,
      error = Some e\<rparr>"

definition weighted_sum :: "weights \<Rightarrow> rat \<Rightarrow> rat \<Rightarrow> rat \<Rightarrow> rat \<Rightarrow> rat" where
  "weighted_sum w u i e d =
     w_urgency w * u + w_importance w * i + w_effort w * e + w_dependencies w * d"

definition score_task :: "pyenv \<Rightarrow> task_scorer \<Rightarrow> pydict \<Rightarrow> pyval list \<Rightarrow> score_result" where
  "score_task env self task all_tasks =
     (case calculate_urgency_score env (dict_get task ''due_date'') of
        Inl ex \<Rightarrow> failed_result ex
      | Inr u \<Rightarrow>
     (case calculate_importance_score env (dict_get task ''importance'') of
        Inl ex \<Rightarrow> failed_result ex
      | Inr i \<Rightarrow>
     (case calculate_effort_score env (dict_get task ''estimated_hours'') of
        Inl ex \<Rightarrow> failed_result ex
      | Inr e \<Rightarrow>
     (let d = calculate_dependency_score
                (dict_get_default task ''id'' (dict_get task ''title'')) all_tasks;
          final_score = weighted_sum (weights self) u i e d
      in \<lparr>score = round2 final_score,
          components =
            \<lparr>urgency = round2 u, importance = round2 i, effort = round2 e,
             dependencies = round2 d\<rparr>,
          error = None\<rparr>))))"

section \<open>Explanations\<close>

text \<open>
  The strings of an explanation are given in their UTF-8 encoding: the pictographs of
  the source are written as their bytes. \<^verbatim>\<open>sep.join(xs)\<close> puts the separator between
  neighbours.
\<close>

fun py_join :: "string \<Rightarrow> string list \<Rightarrow> string" where
  "py_join sep [] = []"
| "py_join sep [x] = x"
| "py_join sep (x # y # ys) = x @ sep @ py_join sep (y # ys)"

definition tag_due_very_soon :: string where
  "tag_due_very_soon =
     [CHR 0xE2, CHR 0x9A, CHR 0xA0, CHR 0xEF, CHR 0xB8, CHR 0x8F] @ '' Due very soon or overdue''"

definition tag_due_within_week :: string where
  "tag_due_within_week = [CHR 0xF0, CHR 0x9F, CHR 0x93, CHR 0x85] @ '' Due within a week''"

definition tag_high_importance :: string where
  "tag_high_importance = [CHR 0xE2, CHR 0xAD, CHR 0x90] @ '' High importance''"

definition tag_medium_high_importance :: string where
  "tag_medium_high_importance =
     [CHR 0xF0, CHR 0x9F, CHR 0x94, CHR 0xB9] @ '' Medium-high importance''"

definition tag_quick_win :: string where
  "tag_quick_win = [CHR 0xE2, CHR 0x9A, CHR 0xA1] @ '' Quick win (low effort)''"

definition tag_multiple_depend :: string where
  "tag_multiple_depend =
     [CHR 0xF0, CHR 0x9F, CHR 0x94, CHR 0x97] @ '' Multiple tasks depend on this''"

definition tag_blocks_others :: string where
  "tag_blocks_others = [CHR 0xF0, CHR 0x9F, CHR 0x94, CHR 0x97] @ '' Blocks other tasks''"

definition tag_prioritized_quick_win :: string where
  "tag_prioritized_quick_win =
     [CHR 0xF0, CHR 0x9F, CHR 0x8E, CHR 0xAF] @ '' Prioritized as quick win''"

definition tag_prioritized_high_impact :: string where
  "tag_prioritized_high_impact =
     [CHR 0xF0, CHR 0x9F, CHR 0x8E, CHR 0xAF] @ '' Prioritized for high impact''"

definition tag_prioritized_deadline :: string where
  "tag_prioritized_deadline =
     [CHR 0xF0, CHR 0x9F, CHR 0x8E, CHR 0xAF] @ '' Prioritized by deadline''"

definition balanced_message :: string where
  "balanced_message =
     [CHR 0xF0, CHR 0x9F, CHR 0x93, CHR 0x8A] @ '' Balanced priority across all factors''"

definition bullet_separator :: string where
  "bullet_separator = '' '' @ [CHR 0xE2, CHR 0x80, CHR 0xA2] @ '' ''"

text \<open>\<^verbatim>\<open>components.get(key, 0)\<close> on a dictionary of numbers.\<close>

definition component_get :: "(string \<times> rat) list \<Rightarrow> string \<Rightarrow> rat" where
  "component_get comps k = (case map_of comps k of None \<Rightarrow> 0 | Some v \<Rightarrow> v)"

text \<open>
  The list \<^verbatim>\<open>reasons\<close> after the five blocks of \<^verbatim>\<open>generate_explanation\<close>. The argument
  \<open>score_components\<close> is the entry \<^verbatim>\<open>'components'\<close> of \<^verbatim>\<open>score_data\<close>, \<open>None\<close> when the key is
  absent (the source then reads an empty dictionary).
\<close>

definition explanation_reasons ::
  "task_scorer \<Rightarrow> (string \<times> rat) list option \<Rightarrow> string list" where
  "explanation_reasons self score_components =
     (let comps = (case score_components of None \<Rightarrow> [] | Some c \<Rightarrow> c);
          reasons = [];
          reasons =
            (if component_get comps ''urgency'' \<ge> 8 then reasons @ [tag_due_very_soon]
             else if component_get comps ''urgency'' \<ge> 6 then reasons @ [tag_due_within_week]
             else reasons);
          reasons =
            (if component_get comps ''importance'' \<ge> 8 then reasons @ [tag_high_importance]
             else if component_get comps ''importance'' \<ge> 6
               then reasons @ [tag_medium_high_importance]
             else reasons);
          reasons =
            (if component_get comps ''effort'' \<ge> 8 then reasons @ [tag_quick_win]
             else reasons);
          reasons =
            (if component_get comps ''dependencies'' \<ge> 7 then reasons @ [tag_multiple_depend]
             else if component_get comps ''dependencies'' \<ge> 4
               then reasons @ [tag_blocks_others]
             else reasons);
          reasons =
            (if strategy self = ''fastest_wins'' \<and> component_get comps ''effort'' \<ge> 7
               then reasons @ [tag_prioritized_quick_win]
             else if strategy self = ''high_impact'' \<and> component_get comps ''importance'' \<ge> 7
               then reasons @ [tag_prioritized_high_impact]
             else if strategy self = ''deadline_driven'' \<and> component_get comps ''urgency'' \<ge> 7
               then reasons @ [tag_prioritized_deadline]
             else reasons)
      in reasons)"

definition generate_explanation ::
  "task_scorer \<Rightarrow> pydict \<Rightarrow> (string \<times> rat) list option \<Rightarrow> string" where
  "generate_explanation self task score_components =
     (let reasons = explanation_reasons self score_components
      in if reasons = [] then balanced_message else py_join bullet_separator reasons)"

text \<open>The \<^verbatim>\<open>'components'\<close> entry of what \<^verbatim>\<open>score_task\<close> returns.\<close>

definition components_entry :: "score_result \<Rightarrow> (string \<times> rat) list option" where
  "components_entry r =
     Some [(''urgency'', urgency (components r)), (''importance'', importance (components r)),
           (''effort'', effort (components r)), (''dependencies'', dependencies (components r))]"

section \<open>Circular dependencies\<close>

text \<open>
  \<^verbatim>\<open>detect_circular_dependencies\<close> reads of each task its identifier
  \<^verbatim>\<open>task.get('id', task.get('title'))\<close> and its list \<^verbatim>\<open>task.get('dependencies', [])\<close>; a task
  is this pair here. Identifiers are values of any type with equality (Python needs
  them hashable). The dictionary \<^verbatim>\<open>graph\<close> keeps one entry for each identifier: a later
  task with the same identifier replaces the dependencies of an earlier one.
\<close>

type_synonym 'a graph = "('a \<times> 'a list) list"

definition build_graph :: "('a \<times> 'a list) list \<Rightarrow> 'a graph" where
  "build_graph tasks = foldl (\<lambda>graph (task_id, deps). AList.update task_id deps graph) [] tasks"

text \<open>\<^verbatim>\<open>graph.get(node, [])\<close>.\<close>

definition graph_get :: "'a graph \<Rightarrow> 'a \<Rightarrow> 'a list" where
  "graph_get graph node = (case map_of graph node of None \<Rightarrow> [] | Some ds \<Rightarrow> ds)"

text \<open>The three variables the nested function \<^verbatim>\<open>dfs\<close> shares with its caller.\<close>

record 'a dfs_state =
  visited :: "'a set"
  rec_stack :: "'a set"
  cycles :: "'a set list"

text \<open>\<^verbatim>\<open>path.index(x)\<close> raises \<^verbatim>\<open>ValueError\<close> when \<open>x\<close> is not in the list.\<close>

fun list_index :: "'a list \<Rightarrow> 'a \<Rightarrow> py_error + nat" where
  "list_index [] x = Inl ValueError"
| "list_index (y # ys) x =
     (if y = x then Inr 0
      else (case list_index ys x of Inl e \<Rightarrow> Inl e | Inr i \<Rightarrow> Inr (Suc i)))"

text \<open>The first three statements of \<^verbatim>\<open>dfs\<close> (the append to \<^verbatim>\<open>path\<close> is in \<open>dfs\<close> below).\<close>

definition enter :: "'a \<Rightarrow> 'a dfs_state \<Rightarrow> 'a dfs_state" where
  "enter node s =
     s\<lparr>visited := insert node (visited s), rec_stack := insert node (rec_stack s)\<rparr>"

text \<open>\<^verbatim>\<open>rec_stack.remove(node)\<close> raises \<^verbatim>\<open>KeyError\<close> when the node is not in the set.\<close>

definition leave :: "'a \<Rightarrow> 'a dfs_state \<Rightarrow> py_error + 'a dfs_state" where
  "leave node s =
     (if node \<in> rec_stack s then Inr (s\<lparr>rec_stack := rec_stack s - {node}\<rparr>)
      else Inl KeyError)"

text \<open>The branch \<^verbatim>\<open>elif neighbor in rec_stack\<close>.\<close>

definition record_cycle :: "'a list \<Rightarrow> 'a \<Rightarrow> 'a dfs_state \<Rightarrow> py_error + 'a dfs_state" where
  "record_cycle path neighbor s =
     (case list_index path neighbor of
        Inl e \<Rightarrow> Inl e
      | Inr cycle_start \<Rightarrow>
          (let cycle = set (drop cycle_start path @ [neighbor])
           in Inr (if cycle \<in> set (cycles s) then s else s\<lparr>cycles := cycles s @ [cycle]\<rparr>)))"

text \<open>
  \<open>dfs\<close> is the nested function, \<open>dfs_neighbors\<close> its \<^verbatim>\<open>for\<close> loop over what is left of
  the neighbours. The callee gets a copy of \<^verbatim>\<open>path\<close>, so the caller's list is unchanged.
  Python's recursion limit is not modelled.
\<close>

function dfs :: "'a graph \<Rightarrow> 'a \<Rightarrow> 'a list \<Rightarrow> 'a dfs_state \<Rightarrow> py_error + 'a dfs_state"
  and dfs_neighbors ::
    "'a graph \<Rightarrow> 'a list \<Rightarrow> 'a list \<Rightarrow> 'a dfs_state \<Rightarrow> py_error + 'a dfs_state"
where
  "dfs graph node path s =
     (case dfs_neighbors graph (graph_get graph node) (path @ [node]) (enter node s) of
        Inl e \<Rightarrow> Inl e
      | Inr s2 \<Rightarrow> leave node s2)"
| "dfs_neighbors graph [] path s = Inr s"
| "dfs_neighbors graph (neighbor # rest) path s =
     (if neighbor \<notin> visited s then
        (case dfs graph neighbor path s of
           Inl e \<Rightarrow> Inl e
         | Inr s' \<Rightarrow> dfs_neighbors graph rest path s')
      else if neighbor \<in> rec_stack s then
        (case record_cycle path neighbor s of
           Inl e \<Rightarrow> Inl e
         | Inr s' \<Rightarrow> dfs_neighbors graph rest path s')
      else dfs_neighbors graph rest path s)"
  by pat_completeness auto

text \<open>Termination: every call of \<open>dfs\<close> from the loop marks a node that was not visited,
  and the nodes of a graph are finitely many.\<close>

definition graph_nodes :: "'a graph \<Rightarrow> 'a set" where
  "graph_nodes graph = set (concat (map snd graph))"

lemma visited_enter [simp]: "visited (enter node s) = insert node (visited s)"
  by (simp add: enter_def)

lemma visited_leave: "leave node s = Inr s' \<Longrightarrow> visited s' = visited s"
  by (auto simp: leave_def split: if_splits)

lemma visited_record_cycle: "record_cycle path n s = Inr s' \<Longrightarrow> visited s' = visited s"
  by (auto simp: record_cycle_def Let_def split: sum.splits if_splits)

lemma visited_mono_dom:
  "dfs_dfs_neighbors_dom (Inl (graph, node, path, s)) \<Longrightarrow>
     dfs graph node path s = Inr s' \<Longrightarrow> visited s \<subseteq> visited s'"
  "dfs_dfs_neighbors_dom (Inr (graph, ns, path, s)) \<Longrightarrow>
     dfs_neighbors graph ns path s = Inr s' \<Longrightarrow> visited s \<subseteq> visited s'"
proof (induct graph node path s and graph ns path s arbitrary: s' and s'
        rule: dfs_dfs_neighbors.pinduct)
  case (1 graph node path s)
  from "1.prems" "1.hyps"(1) obtain s2 where
    a: "dfs_neighbors graph (graph_get graph node) (path @ [node]) (enter node s) = Inr s2"
    and b: "leave node s2 = Inr s'"
    by (auto simp: dfs.psimps split: sum.splits)
  from "1.hyps"(2)[OF a] visited_leave[OF b] show ?case by auto
next
  case (2 graph path s)
  then show ?case by (simp add: dfs_neighbors.psimps)
next
  case (3 graph neighbor rest path s)
  note dom = "3.hyps"(1)
  show ?case
  proof (cases "neighbor \<notin> visited s")
    case True
    with "3.prems" dom obtain s1 where
      a: "dfs graph neighbor path s = Inr s1" and b: "dfs_neighbors graph rest path s1 = Inr s'"
      by (auto simp: dfs_neighbors.psimps split: sum.splits)
    from "3.hyps"(2)[OF True a] "3.hyps"(3)[OF True a b] show ?thesis by auto
  next
    case False
    show ?thesis
    proof (cases "neighbor \<in> rec_stack s")
      case True
      with False "3.prems" dom obtain s1 where
        a: "record_cycle path neighbor s = Inr s1"
        and b: "dfs_neighbors graph rest path s1 = Inr s'"
        by (auto simp: dfs_neighbors.psimps split: sum.splits)
      from "3.hyps"(4)[OF False True a b] visited_record_cycle[OF a] show ?thesis by auto
    next
      case nr: False
      with False "3.prems" dom have b: "dfs_neighbors graph rest path s = Inr s'"
        by (auto simp: dfs_neighbors.psimps)
      from "3.hyps"(5)[OF False nr b] show ?thesis .
    qed
  qed
qed

lemma graph_get_nodes: "set (graph_get graph node) \<subseteq> graph_nodes graph"
proof (cases "map_of graph node")
  case None
  then show ?thesis by (simp add: graph_get_def)
next
  case (Some ds)
  then have "(node, ds) \<in> set graph" by (rule map_of_SomeD)
  then have "set ds \<subseteq> graph_nodes graph" by (force simp: graph_nodes_def)
  with Some show ?thesis by (simp add: graph_get_def)
qed

lemma finite_graph_nodes [simp]: "finite (graph_nodes graph)"
  by (simp add: graph_nodes_def)

termination dfs
proof (relation "inv_image (less_than <*lex*> less_than <*lex*> less_than)
    (\<lambda>x. case x of
       Inl (graph, node, path, s) \<Rightarrow>
         (card (graph_nodes graph - visited s - {node}), Suc 0, 0)
     | Inr (graph, ns, path, s) \<Rightarrow>
         (card ((graph_nodes graph \<union> set ns) - visited s), 0, length ns))", goal_cases)
  case 1
  show ?case by (intro wf_inv_image wf_lex_prod wf_less_than)
next
  case (2 graph node path s)
  have "(graph_nodes graph \<union> set (graph_get graph node)) - visited (enter node s)
        = graph_nodes graph - visited s - {node}"
    using graph_get_nodes[of graph node] by auto
  then show ?case by simp
next
  case (3 graph neighbor rest path s)
  have "graph_nodes graph - visited s - {neighbor}
        \<subset> (graph_nodes graph \<union> set (neighbor # rest)) - visited s"
    using 3 by auto
  then have "card (graph_nodes graph - visited s - {neighbor})
        < card ((graph_nodes graph \<union> set (neighbor # rest)) - visited s)"
    by (intro psubset_card_mono) auto
  then show ?case by simp
next
  case (4 graph neighbor rest path s s')
  have "dfs graph neighbor path s = Inr s'" using 4 by simp
  moreover have "dfs_dfs_neighbors_dom (Inl (graph, neighbor, path, s))" using 4 by simp
  ultimately have "visited s \<subseteq> visited s'" by (rule visited_mono_dom(1)[rotated])
  then have "(graph_nodes graph \<union> set rest) - visited s'
        \<subseteq> (graph_nodes graph \<union> set (neighbor # rest)) - visited s" by auto
  then have "card ((graph_nodes graph \<union> set rest) - visited s')
        \<le> card ((graph_nodes graph \<union> set (neighbor # rest)) - visited s)"
    by (intro card_mono) auto
  then show ?case by auto
next
  case (5 graph neighbor rest path s s')
  have "record_cycle path neighbor s = Inr s'" using 5 by simp
  then have "visited s' = visited s" by (rule visited_record_cycle)
  then have "(graph_nodes graph \<union> set rest) - visited s'
        \<subseteq> (graph_nodes graph \<union> set (neighbor # rest)) - visited s" by auto
  then have "card ((graph_nodes graph \<union> set rest) - visited s')
        \<le> card ((graph_nodes graph \<union> set (neighbor # rest)) - visited s)"
    by (intro card_mono) auto
  then show ?case by auto
next
  case (6 graph neighbor rest path s)
  have "(graph_nodes graph \<union> set rest) - visited s
        \<subseteq> (graph_nodes graph \<union> set (neighbor # rest)) - visited s" by auto
  then have "card ((graph_nodes graph \<union> set rest) - visited s)
        \<le> card ((graph_nodes graph \<union> set (neighbor # rest)) - visited s)"
    by (intro card_mono) auto
  then show ?case by auto
qed

declare dfs.simps [simp del]

text \<open>The closing loop \<^verbatim>\<open>for task in tasks: if task_id not in visited: dfs(task_id, [])\<close>.\<close>

fun check_all_nodes ::
  "'a graph \<Rightarrow> ('a \<times> 'a list) list \<Rightarrow> 'a dfs_state \<Rightarrow> py_error + 'a dfs_state" where
  "check_all_nodes graph [] s = Inr s"
| "check_all_nodes graph ((task_id, deps) # rest) s =
     (if task_id \<notin> visited s then
        (case dfs graph task_id [] s of
           Inl e \<Rightarrow> Inl e
         | Inr s' \<Rightarrow> check_all_nodes graph rest s')
      else check_all_nodes graph rest s)"

definition detect_circular_dependencies ::
  "('a \<times> 'a list) list \<Rightarrow> py_error + 'a set list" where
  "detect_circular_dependencies tasks =
     (case check_all_nodes (build_graph tasks) tasks
             \<lparr>visited = {}, rec_stack = {}, cycles = []\<rparr> of
        Inl e \<Rightarrow> Inl e
      | Inr s \<Rightarrow> Inr (cycles s))"

subsection \<open>The detector on the task dictionaries\<close>

text \<open>
  The functions above are the traversal on identifiers that can be compared. The
  functions of this subsection are the same code on the dictionaries it receives, with
  the failures of the Python run: an entry that is no dictionary, an unhashable
  identifier or dependency entry, dependencies that cannot be iterated, and the
  recursion limit.
\<close>

text \<open>
  A value used as a dictionary key or a set element is hashed first, which fails on a
  list and on a dictionary, and is then compared with \<open>==\<close>. A key stands for the class
  of the hashable values that are equal: \<^verbatim>\<open>1\<close>, \<^verbatim>\<open>1.0\<close> and \<^verbatim>\<open>True\<close> are one key. A NaN
  is a key of its own here; Python finds it again only as the same object.
\<close>

datatype pykey = KNone | KNum rat | KPosInf | KNegInf | KNaN | KStr string | KDate int

definition py_hash_key :: "pyval \<Rightarrow> py_error + pykey" where
  "py_hash_key v =
     (case v of
        PNone \<Rightarrow> Inr KNone
      | PBool b \<Rightarrow> Inr (KNum (if b then 1 else 0))
      | PInt n \<Rightarrow> Inr (KNum (of_int n))
      | PFloat f \<Rightarrow>
          Inr (case f of Fin r \<Rightarrow> KNum r | PosInf \<Rightarrow> KPosInf | NegInf \<Rightarrow> KNegInf | NaN \<Rightarrow> KNaN)
      | PStr s \<Rightarrow> Inr (KStr s)
      | PDate d \<Rightarrow> Inr (KDate d)
      | PList xs \<Rightarrow> Inl TypeError
      | PDict kvs \<Rightarrow> Inl TypeError)"

text \<open>\<^verbatim>\<open>for x in v\<close>: the elements of a list, the characters of a string, the keys of a
  dictionary; nothing else among these values is iterable.\<close>

definition py_iter :: "pyval \<Rightarrow> py_error + pyval list" where
  "py_iter v =
     (case v of
        PList xs \<Rightarrow> Inr xs
      | PStr s \<Rightarrow> Inr (map (\<lambda>c. PStr [c]) s)
      | PDict kvs \<Rightarrow> Inr (map (\<lambda>kv. PStr (fst kv)) kvs)
      | _ \<Rightarrow> Inl TypeError)"

text \<open>\<^verbatim>\<open>task.get('id', task.get('title'))\<close> and \<^verbatim>\<open>task.get('dependencies', [])\<close>.\<close>

definition task_id_value :: "pydict \<Rightarrow> pyval" where
  "task_id_value d = dict_get_default d ''id'' (dict_get d ''title'')"

definition task_dependencies_value :: "pydict \<Rightarrow> pyval" where
  "task_dependencies_value d = dict_get_default d ''dependencies'' (PList [])"

text \<open>The identifier of a list entry as a key: an entry that is no dictionary has no
  \<^verbatim>\<open>get\<close>, and an unhashable identifier cannot be a key.\<close>

definition task_key :: "pyval \<Rightarrow> py_error + pykey" where
  "task_key task =
     (case task of PDict d \<Rightarrow> py_hash_key (task_id_value d) | _ \<Rightarrow> Inl AttributeError)"

text \<open>The loop that fills \<^verbatim>\<open>graph\<close>: the dependencies are stored as they are.\<close>

type_synonym py_graph = "(pykey \<times> pyval) list"

fun build_graph_py :: "pyval list \<Rightarrow> py_graph \<Rightarrow> py_error + py_graph" where
  "build_graph_py [] graph = Inr graph"
| "build_graph_py (task # rest) graph =
     (case task of
        PDict d \<Rightarrow>
          (case py_hash_key (task_id_value d) of
             Inl e \<Rightarrow> Inl e
           | Inr task_id \<Rightarrow>
               build_graph_py rest (AList.update task_id (task_dependencies_value d) graph))
      | _ \<Rightarrow> Inl AttributeError)"

definition graph_get_py :: "py_graph \<Rightarrow> pykey \<Rightarrow> pyval" where
  "graph_get_py graph node = (case map_of graph node of None \<Rightarrow> PList [] | Some v \<Rightarrow> v)"

text \<open>
  The nested function \<^verbatim>\<open>dfs\<close> on these values. \<open>limit\<close> is the number of nested calls of
  \<^verbatim>\<open>dfs\<close> that the interpreter's recursion limit still allows when the detector is
  called: a call with \<open>limit\<close> callers of its kind on the stack raises
  \<^verbatim>\<open>RecursionError\<close>. Every neighbour is hashed by \<^verbatim>\<open>neighbor not in visited\<close>.
\<close>

function dfs_py ::
    "nat \<Rightarrow> py_graph \<Rightarrow> pykey \<Rightarrow> pykey list \<Rightarrow> pykey dfs_state \<Rightarrow> py_error + pykey dfs_state"
  and dfs_neighbors_py ::
    "nat \<Rightarrow> py_graph \<Rightarrow> pyval list \<Rightarrow> pykey list \<Rightarrow> pykey dfs_state \<Rightarrow> py_error + pykey dfs_state"
where
  "dfs_py limit graph node path s =
     (if limit \<le> length path then Inl RecursionError
      else
        (case py_iter (graph_get_py graph node) of
           Inl e \<Rightarrow> Inl e
         | Inr neighbors \<Rightarrow>
             (case dfs_neighbors_py limit graph neighbors (path @ [node]) (enter node s) of
                Inl e \<Rightarrow> Inl e
              | Inr s2 \<Rightarrow> leave node s2)))"
| "dfs_neighbors_py limit graph [] path s = Inr s"
| "dfs_neighbors_py limit graph (neighbor # rest) path s =
     (case py_hash_key neighbor of
        Inl e \<Rightarrow> Inl e
      | Inr k \<Rightarrow>
          (if k \<notin> visited s then
             (case dfs_py limit graph k path s of
                Inl e \<Rightarrow> Inl e
              | Inr s' \<Rightarrow> dfs_neighbors_py limit graph rest path s')
           else if k \<in> rec_stack s then
             (case record_cycle path k s of
                Inl e \<Rightarrow> Inl e
              | Inr s' \<Rightarrow> dfs_neighbors_py limit graph rest path s')
           else dfs_neighbors_py limit graph rest path s))"
  by pat_completeness auto

termination dfs_py
  by (relation "inv_image (less_than <*lex*> less_than <*lex*> less_than)
        (\<lambda>x. case x of
           Inl (limit, graph, node, path, s) \<Rightarrow> (limit - length path, 0, 0)
         | Inr (limit, graph, ns, path, s) \<Rightarrow> (limit - length path, Suc 0, length ns))")
     auto

declare dfs_py.simps [simp del]

fun check_all_nodes_py ::
  "nat \<Rightarrow> py_graph \<Rightarrow> pyval list \<Rightarrow> pykey dfs_state \<Rightarrow> py_error + pykey dfs_state" where
  "check_all_nodes_py limit graph [] s = Inr s"
| "check_all_nodes_py limit graph (task # rest) s =
     (case task_key task of
        Inl e \<Rightarrow> Inl e
      | Inr task_id \<Rightarrow>
          (if task_id \<notin> visited s then
             (case dfs_py limit graph task_id [] s of
                Inl e \<Rightarrow> Inl e
              | Inr s' \<Rightarrow> check_all_nodes_py limit graph rest s')
           else check_all_nodes_py limit graph rest s))"

text \<open>\<^verbatim>\<open>detect_circular_dependencies\<close> on the list of task dictionaries.\<close>

definition detect_circular_dependencies_py ::
  "nat \<Rightarrow> pyval list \<Rightarrow> py_error + pykey set list" where
  "detect_circular_dependencies_py limit tasks =
     (case build_graph_py tasks [] of
        Inl e \<Rightarrow> Inl e
      | Inr graph \<Rightarrow>
          (case check_all_nodes_py limit graph tasks
                  \<lparr>visited = {}, rec_stack = {}, cycles = []\<rparr> of
             Inl e \<Rightarrow> Inl e
           | Inr s \<Rightarrow> Inr (cycles s)))"

section \<open>Auxiliary notions for the properties\<close>

text \<open>An environment for concrete evaluations: no string parses.\<close>

definition example_env :: pyenv where
  "example_env = \<lparr>today = 738000, strptime_ymd = (\<lambda>s. None), float_of_str = (\<lambda>s. None)\<rparr>"

text \<open>A complete task without dependencies, as in the end-to-end scenario.\<close>

definition scenario_task :: "pyval \<Rightarrow> pyval \<Rightarrow> pyval \<Rightarrow> int \<Rightarrow> int \<Rightarrow> pydict" where
  "scenario_task task_id title due_date hours imp =
     [(''id'', task_id), (''title'', title), (''due_date'', due_date),
      (''estimated_hours'', PInt hours), (''importance'', PInt imp), (''dependencies'', PList [])]"


text \<open>
  Invariants of the traversal. While \<open>dfs\<close> runs, \<^verbatim>\<open>rec_stack\<close> holds exactly the nodes of
  the current \<^verbatim>\<open>path\<close>, all of them visited; and every node that is visited, no longer on
  the stack and among its own neighbours has its singleton cycle in \<^verbatim>\<open>cycles\<close>.
\<close>

definition stack_inv :: "'a list \<Rightarrow> 'a dfs_state \<Rightarrow> bool" where
  "stack_inv path s \<longleftrightarrow> rec_stack s = set path \<and> set path \<subseteq> visited s"

definition loops_recorded :: "'a graph \<Rightarrow> 'a dfs_state \<Rightarrow> bool" where
  "loops_recorded graph s \<longleftrightarrow>
     (\<forall>a. a \<in> visited s \<longrightarrow> a \<notin> rec_stack s \<longrightarrow> a \<in> set (graph_get graph a) \<longrightarrow>
          {a} \<in> set (cycles s))"

definition dfs_post :: "'a graph \<Rightarrow> 'a dfs_state \<Rightarrow> 'a dfs_state \<Rightarrow> bool" where
  "dfs_post graph s s' \<longleftrightarrow>
     rec_stack s' = rec_stack s \<and> visited s \<subseteq> visited s' \<and>
     set (cycles s) \<subseteq> set (cycles s') \<and> loops_recorded graph s'"

text \<open>
  Well-formed input of the detector, as the view hands it over: every task is a
  dictionary, its identifier is hashable and no NaN, and its dependencies are a list of
  such values. For these tasks \<open>the_key\<close>, \<open>keys_list\<close>, \<open>abs_graph\<close> and \<open>abs_task\<close> give
  the keys on which the traversal runs.
\<close>

definition plain_key :: "pyval \<Rightarrow> bool" where
  "plain_key v =
     (case v of
        PList xs \<Rightarrow> False
      | PDict kvs \<Rightarrow> False
      | PFloat f \<Rightarrow> f \<noteq> NaN
      | _ \<Rightarrow> True)"

definition plain_dependencies :: "pyval \<Rightarrow> bool" where
  "plain_dependencies v = (case v of PList xs \<Rightarrow> list_all plain_key xs | _ \<Rightarrow> False)"

definition well_formed_task :: "pyval \<Rightarrow> bool" where
  "well_formed_task task =
     (case task of
        PDict d \<Rightarrow> plain_key (task_id_value d) \<and> plain_dependencies (task_dependencies_value d)
      | _ \<Rightarrow> False)"

definition the_key :: "pyval \<Rightarrow> pykey" where
  "the_key v = (case py_hash_key v of Inr k \<Rightarrow> k | Inl e \<Rightarrow> KNone)"

definition keys_list :: "pyval \<Rightarrow> pykey list" where
  "keys_list v = (case py_iter v of Inr ns \<Rightarrow> map the_key ns | Inl e \<Rightarrow> [])"

definition abs_graph :: "py_graph \<Rightarrow> pykey graph" where
  "abs_graph g = map (\<lambda>kv. (fst kv, keys_list (snd kv))) g"

definition abs_task :: "pyval \<Rightarrow> pykey \<times> pykey list" where
  "abs_task task =
     (case task of
        PDict d \<Rightarrow> (the_key (task_id_value d), keys_list (task_dependencies_value d))
      | _ \<Rightarrow> (KNone, []))"

definition plain_graph :: "py_graph \<Rightarrow> bool" where
  "plain_graph g = list_all (\<lambda>kv. plain_dependencies (snd kv)) g"

section \<open>Properties of the strategy weights\<close>

text \<open>
  Claim C6. Strategy resolution maps the four known names to their weight vectors
  (\<^verbatim>\<open>smart_balance\<close> 0.35/0.30/0.10/0.25, \<^verbatim>\<open>fastest_wins\<close> 0.20/0.20/0.50/0.10,
  \<^verbatim>\<open>high_impact\<close> 0.15/0.60/0.05/0.20, \<^verbatim>\<open>deadline_driven\<close> 0.70/0.15/0.05/0.10), and
  every other name resolves to the \<^verbatim>\<open>smart_balance\<close> weights; the lookup is total, so
  nothing is raised.
\<close>

theorem get_weights_resolution:
  "get_weights ''smart_balance'' =
      \<lparr>w_urgency = 35 / 100, w_importance = 30 / 100, w_effort = 10 / 100, w_dependencies = 25 / 100\<rparr>
   \<and> get_weights ''fastest_wins'' =
      \<lparr>w_urgency = 20 / 100, w_importance = 20 / 100, w_effort = 50 / 100, w_dependencies = 10 / 100\<rparr>
   \<and> get_weights ''high_impact'' =
      \<lparr>w_urgency = 15 / 100, w_importance = 60 / 100, w_effort = 5 / 100, w_dependencies = 20 / 100\<rparr>
   \<and> get_weights ''deadline_driven'' =
      \<lparr>w_urgency = 70 / 100, w_importance = 15 / 100, w_effort = 5 / 100, w_dependencies = 10 / 100\<rparr>
   \<and> (name \<notin> {''smart_balance'', ''fastest_wins'', ''high_impact'', ''deadline_driven''} \<longrightarrow>
        get_weights name = get_weights ''smart_balance''
        \<and> weights (TaskScorer name) = weights (TaskScorer ''smart_balance''))"
  by (simp add: get_weights_def strategies_def smart_balance_def fastest_wins_def
        high_impact_def deadline_driven_def TaskScorer_def)

text \<open>An unknown name gets the default vector; the three thresholds of the test suite.\<close>

theorem get_weights_resolution_witness:
  "get_weights ''no_such_strategy'' =
      \<lparr>w_urgency = 35 / 100, w_importance = 30 / 100, w_effort = 10 / 100, w_dependencies = 25 / 100\<rparr>
   \<and> w_effort (get_weights ''fastest_wins'') > 4 / 10
   \<and> w_importance (get_weights ''high_impact'') > 5 / 10
   \<and> w_urgency (get_weights ''deadline_driven'') > 6 / 10"
  using get_weights_resolution [of "''no_such_strategy''"] by simp

lemma get_weights_cases:
  "get_weights name \<in> {smart_balance, fastest_wins, high_impact, deadline_driven}"
  by (simp add: get_weights_def strategies_def)

lemma weights_sum_one:
  "w_urgency (get_weights name) + w_importance (get_weights name)
     + w_effort (get_weights name) + w_dependencies (get_weights name) = 1"
  using get_weights_cases[of name]
  by (auto simp: smart_balance_def fastest_wins_def high_impact_def deadline_driven_def)

section \<open>Properties of the urgency score\<close>

lemma urgency_of_days_overdue: "days < 0 \<Longrightarrow> urgency_of_days days = 10"
  by (simp add: urgency_of_days_def)

lemma calculate_urgency_score_days:
  "days_until_due env due_date = Inr days \<Longrightarrow>
     calculate_urgency_score env due_date = Inr (urgency_of_days days)"
  by (simp add: calculate_urgency_score_def)

lemma urgency_of_days_range: "0 \<le> urgency_of_days days \<and> urgency_of_days days \<le> 10"
proof (cases "days \<le> 30")
  case True
  then show ?thesis by (simp add: urgency_of_days_def)
next
  case False
  then have "(0::rat) \<le> (of_int days - 30) / 30" by simp
  then have "2 - (of_int days - 30) / 30 \<le> (10::rat)" by linarith
  with False show ?thesis by (simp add: urgency_of_days_def)
qed

text \<open>The urgency score never raises: both failures of the date arithmetic are caught.\<close>

lemma calculate_urgency_score_total:
  "\<exists>u. calculate_urgency_score env due_date = Inr u \<and> 0 \<le> u \<and> u \<le> 10"
  by (cases due_date)
     (auto simp: calculate_urgency_score_def days_until_due_def urgency_of_days_range
           split: option.splits)

text \<open>
  Claim C10. For every due date strictly before today, however many days overdue,
  \<^verbatim>\<open>calculate_urgency_score\<close> returns exactly 10: the overdue score is constant. The due
  date is a date, or a string that \<^verbatim>\<open>strptime\<close> accepts.
\<close>

theorem overdue_urgency_is_ten:
  "days_until_due env due_date = Inr days \<Longrightarrow> days < 0 \<Longrightarrow>
     calculate_urgency_score env due_date = Inr 10"
  by (simp add: calculate_urgency_score_days urgency_of_days_overdue)

text \<open>A string parsed to a day 28 days ago, and a date one day ago.\<close>

theorem overdue_urgency_is_ten_witness:
  "calculate_urgency_score
     \<lparr>today = 738000, strptime_ymd = (\<lambda>s. if s = ''2021-07-01'' then Some 737972 else None),
      float_of_str = (\<lambda>s. None)\<rparr> (PStr ''2021-07-01'') = Inr 10
   \<and> calculate_urgency_score
     \<lparr>today = 738000, strptime_ymd = (\<lambda>s. None), float_of_str = (\<lambda>s. None)\<rparr>
       (PDate 737999) = Inr 10"
  using overdue_urgency_is_ten [of "\<lparr>today = 738000,
      strptime_ymd = (\<lambda>s. if s = ''2021-07-01'' then Some 737972 else None),
      float_of_str = (\<lambda>s. None)\<rparr>" "PStr ''2021-07-01''" "- 28"]
    overdue_urgency_is_ten [of "\<lparr>today = 738000, strptime_ymd = (\<lambda>s. None),
      float_of_str = (\<lambda>s. None)\<rparr>" "PDate 737999" "- 1"]
  by (simp add: days_until_due_def)

text \<open>
  Claim C4, at its failing input. The claim has the overdue score increase with the
  days overdue, which is also what the comment in the source says. The code returns
  \<open>min(10, 10 + |days_until| * 0.1)\<close>, which is 10 for every overdue date: a task one day
  overdue and a task five days overdue score the same.
\<close>

theorem overdue_urgency_not_increasing:
  "calculate_urgency_score example_env (PDate 737999) = Inr (urgency_of_days (- 1))
   \<and> calculate_urgency_score example_env (PDate 737995) = Inr (urgency_of_days (- 5))
   \<and> \<not> urgency_of_days (- 1) < urgency_of_days (- 5)"
  by (simp add: calculate_urgency_score_def days_until_due_def example_env_def
        urgency_of_days_def)

section \<open>Properties of rounding\<close>

lemma round_half_even_between:
  "\<lfloor>x\<rfloor> \<le> round_half_even x \<and> round_half_even x \<le> \<lfloor>x\<rfloor> + 1"
  by (simp add: round_half_even_def Let_def)

lemma round_half_even_of_int [simp]: "round_half_even (of_int n) = n"
  by (simp add: round_half_even_def Let_def)

lemma round_half_even_bounds:
  assumes "of_int a \<le> x" and "x \<le> of_int b"
  shows "a \<le> round_half_even x \<and> round_half_even x \<le> b"
proof
  from assms(1) have "a \<le> \<lfloor>x\<rfloor>" by (simp add: le_floor_iff)
  with round_half_even_between[of x] show "a \<le> round_half_even x" by linarith
next
  show "round_half_even x \<le> b"
  proof (cases "x = of_int b")
    case True
    then show ?thesis by simp
  next
    case False
    with assms(2) have "x < of_int b" by simp
    then have "\<lfloor>x\<rfloor> < b" by (simp add: floor_less_iff)
    with round_half_even_between[of x] show ?thesis by linarith
  qed
qed

lemma round_half_even_near: "\<bar>of_int (round_half_even x) - x\<bar> \<le> 1 / 2"
proof -
  have "of_int \<lfloor>x\<rfloor> \<le> x" "x < of_int \<lfloor>x\<rfloor> + 1" by linarith+
  then show ?thesis
    by (auto simp: round_half_even_def Let_def abs_le_iff)
qed

lemma round2_bounds:
  assumes "0 \<le> x" and "x \<le> 10"
  shows "0 \<le> round2 x \<and> round2 x \<le> 10"
proof -
  have "of_int 0 \<le> x * 100" "x * 100 \<le> of_int 1000" using assms by simp_all
  from round_half_even_bounds[OF this]
  have "0 \<le> round_half_even (x * 100)" "round_half_even (x * 100) \<le> 1000" by simp_all
  then have "(0::rat) \<le> of_int (round_half_even (x * 100))"
    "(of_int (round_half_even (x * 100)) :: rat) \<le> 1000"
    by (simp, metis of_int_le_iff of_int_numeral)
  then show ?thesis by (simp add: round2_def)
qed

lemma round2_nearest: "\<bar>round2 x - x\<bar> \<le> 1 / 200"
proof -
  define r :: rat where "r = of_int (round_half_even (x * 100))"
  have "\<bar>r - x * 100\<bar> \<le> 1 / 2"
    unfolding r_def by (rule round_half_even_near)
  then have "\<bar>r - x * 100\<bar> / 100 \<le> (1 / 2) / 100"
    by (rule divide_right_mono) simp
  moreover have "round2 x - x = (r - x * 100) / 100"
    by (simp add: round2_def r_def diff_divide_distrib)
  then have "\<bar>round2 x - x\<bar> = \<bar>r - x * 100\<bar> / 100"
    by (simp only: abs_divide abs_numeral)
  ultimately show ?thesis by simp
qed

lemma floor_rat_numeral_divide:
  "\<lfloor>(numeral a :: rat) / numeral b\<rfloor> = numeral a div numeral b"
  by (metis floor_divide_of_int_eq of_int_numeral)

section \<open>Ranges of the factor scores\<close>

lemma float_max_int_large: "10000 < float_max_int"
  by (simp add: float_max_int_def)

lemma float_max_int_below_power: "float_max_int \<le> 10 ^ 400"
  by (simp add: float_max_int_def)

lemma py_float_small_int:
  "\<bar>n\<bar> \<le> 10000 \<Longrightarrow> py_float env (PInt n) = Inr (Fin (of_int n))"
  using float_max_int_large by (simp add: py_float_def)

lemma clamp_importance_range: "1 \<le> clamp_importance f \<and> clamp_importance f \<le> 10"
  by (cases f) (simp_all add: clamp_importance_def)

lemma calculate_importance_score_range:
  assumes "calculate_importance_score env v = Inr i"
  shows "0 \<le> i \<and> i \<le> 10"
proof (cases "py_float env v")
  case (Inl err)
  with assms have "i = 5"
    by (simp add: calculate_importance_score_def split: if_splits)
  then show ?thesis by simp
next
  case (Inr f)
  with assms have "i = clamp_importance f" by (simp add: calculate_importance_score_def)
  with clamp_importance_range[of f] show ?thesis by simp
qed

lemma effort_of_hours_range: "0 \<le> effort_of_hours h \<and> effort_of_hours h \<le> 10"
proof (cases "h \<le> 16")
  case True
  then show ?thesis by (simp add: effort_of_hours_def Let_def)
next
  case False
  then have "0 \<le> (h - 16) / 8" by simp
  then have "2 - (h - 16) / 8 \<le> 10" by linarith
  with False show ?thesis by (simp add: effort_of_hours_def Let_def)
qed

lemma effort_of_range: "0 \<le> effort_of f \<and> effort_of f \<le> 10"
  by (cases f) (simp_all add: effort_of_def effort_of_hours_range)

lemma calculate_effort_score_range:
  assumes "calculate_effort_score env v = Inr e"
  shows "0 \<le> e \<and> e \<le> 10"
proof (cases "py_float env v")
  case (Inl err)
  with assms have "e = 5"
    by (simp add: calculate_effort_score_def split: if_splits)
  then show ?thesis by simp
next
  case (Inr f)
  with assms have "e = effort_of f" by (simp add: calculate_effort_score_def)
  with effort_of_range[of f] show ?thesis by simp
qed

lemma dependency_policy_range: "0 \<le> dependency_policy n \<and> dependency_policy n \<le> 10"
  by (simp add: dependency_policy_def)

lemma calculate_dependency_score_range:
  "0 \<le> calculate_dependency_score task_id all_tasks \<and>
   calculate_dependency_score task_id all_tasks \<le> 10"
  by (simp add: calculate_dependency_score_def dependency_policy_range split: sum.splits)

lemma weighted_sum_range:
  assumes "0 \<le> u" "u \<le> 10" "0 \<le> i" "i \<le> 10" "0 \<le> e" "e \<le> 10" "0 \<le> d" "d \<le> 10"
  shows "0 \<le> weighted_sum (get_weights name) u i e d \<and>
         weighted_sum (get_weights name) u i e d \<le> 10"
  using get_weights_cases[of name] assms
  by (auto simp: weighted_sum_def smart_balance_def fastest_wins_def high_impact_def
        deadline_driven_def)

section \<open>Properties of the aggregation\<close>

text \<open>
  Claim C5, at its failing input. An importance (or an effort) that is an integer
  beyond the range of a double makes \<^verbatim>\<open>float\<close> raise \<^verbatim>\<open>OverflowError\<close>, which the handlers
  of \<^verbatim>\<open>calculate_importance_score\<close> and \<^verbatim>\<open>calculate_effort_score\<close> do not catch: the two
  factor functions raise. \<^verbatim>\<open>score_task\<close> catches the exception and returns the zero result
  with the error attached.
\<close>

theorem importance_overflow_escapes:
  "calculate_importance_score env (PInt (10 ^ 400)) = Inl OverflowError
   \<and> calculate_effort_score env (PInt (10 ^ 400)) = Inl OverflowError
   \<and> score_task env self [(''id'', PInt 1), (''importance'', PInt (10 ^ 400))] all_tasks
       = failed_result OverflowError"
  using float_max_int_below_power
  by (simp add: calculate_importance_score_def calculate_effort_score_def py_float_def
        score_task_def dict_get_def calculate_urgency_score_def days_until_due_def)

lemma py_contains_empty_list: "py_contains x (PList []) = Inr False"
  by (simp add: py_contains_def)

lemma scenario_dependency_score:
  "calculate_dependency_score x
     [PDict (scenario_task ia ta da ha pa), PDict (scenario_task ib tb db hb pb),
      PDict (scenario_task ic tc dc hc pc)] = 0"
  by (simp add: calculate_dependency_score_def scenario_task_def dict_get_default_def
        names_dependency_def py_contains_empty_list dependency_policy_def)

lemma scenario_score:
  assumes "days_until_due env due = Inr days" and "\<bar>hours\<bar> \<le> 10000" and "\<bar>imp\<bar> \<le> 10000"
    and "calculate_dependency_score tid all_tasks = 0"
  shows "score (score_task env (TaskScorer ''smart_balance'')
            (scenario_task tid title due hours imp) all_tasks)
         = round2 (35 / 100 * urgency_of_days days + 30 / 100 * clamp_importance (Fin (of_int imp))
                   + 10 / 100 * effort_of_hours (of_int hours))"
  using assms
  by (simp add: score_task_def scenario_task_def dict_get_def dict_get_default_def
        calculate_urgency_score_def calculate_importance_score_def calculate_effort_score_def
        py_float_small_int effort_of_def weighted_sum_def TaskScorer_def get_weights_def
        strategies_def smart_balance_def)

text \<open>
  Claim C7. Of the three tasks A (due today, importance 10, 2 hours), B (due in 30 days,
  importance 4, 1 hour) and C (due in 7 days, importance 9, 8 hours), none with
  dependencies, the \<^verbatim>\<open>smart_balance\<close> strategy gives A a strictly higher final score than B
  and than C: the scores are 7.12, 2.80 and 5.20. The due dates are dates, or strings that
  \<^verbatim>\<open>strptime\<close> accepts; identifiers and titles are arbitrary.
\<close>

theorem smart_balance_ranks_due_today_first:
  assumes "days_until_due env due_a = Inr 0"
    and "days_until_due env due_b = Inr 30"
    and "days_until_due env due_c = Inr 7"
  shows "let a = scenario_task id_a title_a due_a 2 10;
             b = scenario_task id_b title_b due_b 1 4;
             c = scenario_task id_c title_c due_c 8 9;
             all_tasks = [PDict a, PDict b, PDict c];
             self = TaskScorer ''smart_balance''
         in score (score_task env self a all_tasks) = 712 / 100
          \<and> score (score_task env self b all_tasks) = 280 / 100
          \<and> score (score_task env self c all_tasks) = 520 / 100
          \<and> score (score_task env self b all_tasks) < score (score_task env self a all_tasks)
          \<and> score (score_task env self c all_tasks) < score (score_task env self a all_tasks)"
proof -
  let ?a = "scenario_task id_a title_a due_a 2 10"
  let ?b = "scenario_task id_b title_b due_b 1 4"
  let ?c = "scenario_task id_c title_c due_c 8 9"
  let ?all = "[PDict ?a, PDict ?b, PDict ?c]"
  let ?self = "TaskScorer ''smart_balance''"
  have sa: "score (score_task env ?self ?a ?all) = 712 / 100"
    by (subst scenario_score[OF assms(1)])
       (simp_all add: scenario_dependency_score urgency_of_days_def clamp_importance_def
          effort_of_hours_def round2_def round_half_even_def Let_def floor_rat_numeral_divide)
  have sb: "score (score_task env ?self ?b ?all) = 280 / 100"
    by (subst scenario_score[OF assms(2)])
       (simp_all add: scenario_dependency_score urgency_of_days_def clamp_importance_def
          effort_of_hours_def round2_def round_half_even_def Let_def floor_rat_numeral_divide)
  have sc: "score (score_task env ?self ?c ?all) = 520 / 100"
    by (subst scenario_score[OF assms(3)])
       (simp_all add: scenario_dependency_score urgency_of_days_def clamp_importance_def
          effort_of_hours_def round2_def round_half_even_def Let_def floor_rat_numeral_divide)
  show ?thesis by (simp add: Let_def sa sb sc)
qed

text \<open>The three tasks with identifiers 1, 2, 3 and dates as due dates.\<close>

theorem smart_balance_ranks_due_today_first_witness:
  "score (score_task example_env (TaskScorer ''smart_balance'')
      (scenario_task (PInt 2) (PStr ''Documentation Update'') (PDate 738030) 1 4)
      [PDict (scenario_task (PInt 1) (PStr ''Critical Bug Fix'') (PDate 738000) 2 10),
       PDict (scenario_task (PInt 2) (PStr ''Documentation Update'') (PDate 738030) 1 4),
       PDict (scenario_task (PInt 3) (PStr ''Infrastructure Setup'') (PDate 738007) 8 9)])
   < score (score_task example_env (TaskScorer ''smart_balance'')
      (scenario_task (PInt 1) (PStr ''Critical Bug Fix'') (PDate 738000) 2 10)
      [PDict (scenario_task (PInt 1) (PStr ''Critical Bug Fix'') (PDate 738000) 2 10),
       PDict (scenario_task (PInt 2) (PStr ''Documentation Update'') (PDate 738030) 1 4),
       PDict (scenario_task (PInt 3) (PStr ''Infrastructure Setup'') (PDate 738007) 8 9)])
   \<and> score (score_task example_env (TaskScorer ''smart_balance'')
      (scenario_task (PInt 3) (PStr ''Infrastructure Setup'') (PDate 738007) 8 9)
      [PDict (scenario_task (PInt 1) (PStr ''Critical Bug Fix'') (PDate 738000) 2 10),
       PDict (scenario_task (PInt 2) (PStr ''Documentation Update'') (PDate 738030) 1 4),
       PDict (scenario_task (PInt 3) (PStr ''Infrastructure Setup'') (PDate 738007) 8 9)])
   < score (score_task example_env (TaskScorer ''smart_balance'')
      (scenario_task (PInt 1) (PStr ''Critical Bug Fix'') (PDate 738000) 2 10)
      [PDict (scenario_task (PInt 1) (PStr ''Critical Bug Fix'') (PDate 738000) 2 10),
       PDict (scenario_task (PInt 2) (PStr ''Documentation Update'') (PDate 738030) 1 4),
       PDict (scenario_task (PInt 3) (PStr ''Infrastructure Setup'') (PDate 738007) 8 9)])"
proof -
  have d: "days_until_due example_env (PDate 738000) = Inr 0"
    "days_until_due example_env (PDate 738030) = Inr 30"
    "days_until_due example_env (PDate 738007) = Inr 7"
    by (simp_all add: days_until_due_def example_env_def)
  from smart_balance_ranks_due_today_first [OF d, of "PInt 1" "PStr ''Critical Bug Fix''"
      "PInt 2" "PStr ''Documentation Update''" "PInt 3" "PStr ''Infrastructure Setup''"]
  show ?thesis by (simp add: Let_def)
qed

section \<open>Properties of the dependency score\<close>





section \<open>Properties of the explanation\<close>

lemma py_join_nonempty:
  "reasons \<noteq> [] \<Longrightarrow> list_all (\<lambda>r. r \<noteq> []) reasons \<Longrightarrow> py_join sep reasons \<noteq> []"
  by (induction sep reasons rule: py_join.induct) simp_all

lemmas tag_defs =
  tag_due_very_soon_def tag_due_within_week_def tag_high_importance_def
  tag_medium_high_importance_def tag_quick_win_def tag_multiple_depend_def
  tag_blocks_others_def tag_prioritized_quick_win_def tag_prioritized_high_impact_def
  tag_prioritized_deadline_def

lemma explanation_reasons_nonempty_tags:
  "list_all (\<lambda>r. r \<noteq> []) (explanation_reasons self score_components)"
  by (simp add: explanation_reasons_def Let_def tag_defs)

lemma explanation_reasons_empty_iff:
  "explanation_reasons self (Some comps) = [] \<longleftrightarrow>
     component_get comps ''urgency'' < 6 \<and> component_get comps ''importance'' < 6
     \<and> component_get comps ''effort'' < 8 \<and> component_get comps ''dependencies'' < 4
     \<and> \<not> (strategy self = ''fastest_wins'' \<and> 7 \<le> component_get comps ''effort'')"
  by (auto simp: explanation_reasons_def Let_def)

lemma py_join_concat:
  "py_join sep (x # xs) = x @ concat (map (\<lambda>y. sep @ y) xs)"
  by (induction sep "x # xs" arbitrary: x xs rule: py_join.induct) simp_all

lemma component_get_map_of:
  "component_get comps k = (case map_of comps k of None \<Rightarrow> 0 | Some v \<Rightarrow> v)"
  by (simp add: component_get_def)

text \<open>
  Claim C8. For every task and every score-components input, \<^verbatim>\<open>generate_explanation\<close>
  returns a non-empty string. With \<open>u\<close>, \<open>i\<close>, \<open>e\<close>, \<open>d\<close> the four components (0 where the
  key is missing), the result is the list of the tags whose thresholds are met, in the
  order urgency, importance, effort, dependencies, strategy, joined by the bullet
  separator; when no threshold is met, or when there are no components, it is the fixed
  balanced-priority message. Four evaluations give the text of every tag.
\<close>

theorem generate_explanation_tags:
  "(let u = (case map_of comps ''urgency'' of None \<Rightarrow> 0 | Some v \<Rightarrow> v);
        i = (case map_of comps ''importance'' of None \<Rightarrow> 0 | Some v \<Rightarrow> v);
        e = (case map_of comps ''effort'' of None \<Rightarrow> 0 | Some v \<Rightarrow> v);
        d = (case map_of comps ''dependencies'' of None \<Rightarrow> 0 | Some v \<Rightarrow> v);
        tags =
          (if 8 \<le> u then [tag_due_very_soon]
           else if 6 \<le> u then [tag_due_within_week] else [])
          @ (if 8 \<le> i then [tag_high_importance]
             else if 6 \<le> i then [tag_medium_high_importance] else [])
          @ (if 8 \<le> e then [tag_quick_win] else [])
          @ (if 7 \<le> d then [tag_multiple_depend]
             else if 4 \<le> d then [tag_blocks_others] else [])
          @ (if strategy self = ''fastest_wins'' \<and> 7 \<le> e then [tag_prioritized_quick_win]
             else if strategy self = ''high_impact'' \<and> 7 \<le> i then [tag_prioritized_high_impact]
             else if strategy self = ''deadline_driven'' \<and> 7 \<le> u then [tag_prioritized_deadline]
             else [])
    in generate_explanation self task (Some comps) =
         (case tags of
            [] \<Rightarrow> balanced_message
          | t # ts \<Rightarrow> t @ concat (map (\<lambda>x. bullet_separator @ x) ts))
       \<and> generate_explanation self task (Some comps) \<noteq> [])
   \<and> generate_explanation self task None = balanced_message
   \<and> generate_explanation (TaskScorer ''deadline_driven'') task
         (Some [(''urgency'', 95 / 10), (''importance'', 9), (''effort'', 9), (''dependencies'', 7)])
       = [CHR 0xE2, CHR 0x9A, CHR 0xA0, CHR 0xEF, CHR 0xB8, CHR 0x8F] @ '' Due very soon or overdue''
         @ '' '' @ [CHR 0xE2, CHR 0x80, CHR 0xA2] @ '' ''
         @ [CHR 0xE2, CHR 0xAD, CHR 0x90] @ '' High importance''
         @ '' '' @ [CHR 0xE2, CHR 0x80, CHR 0xA2] @ '' ''
         @ [CHR 0xE2, CHR 0x9A, CHR 0xA1] @ '' Quick win (low effort)''
         @ '' '' @ [CHR 0xE2, CHR 0x80, CHR 0xA2] @ '' ''
         @ [CHR 0xF0, CHR 0x9F, CHR 0x94, CHR 0x97] @ '' Multiple tasks depend on this''
         @ '' '' @ [CHR 0xE2, CHR 0x80, CHR 0xA2] @ '' ''
         @ [CHR 0xF0, CHR 0x9F, CHR 0x8E, CHR 0xAF] @ '' Prioritized by deadline''
   \<and> generate_explanation (TaskScorer ''high_impact'') task
         (Some [(''urgency'', 6), (''importance'', 7), (''effort'', 4), (''dependencies'', 4)])
       = [CHR 0xF0, CHR 0x9F, CHR 0x93, CHR 0x85] @ '' Due within a week''
         @ '' '' @ [CHR 0xE2, CHR 0x80, CHR 0xA2] @ '' ''
         @ [CHR 0xF0, CHR 0x9F, CHR 0x94, CHR 0xB9] @ '' Medium-high importance''
         @ '' '' @ [CHR 0xE2, CHR 0x80, CHR 0xA2] @ '' ''
         @ [CHR 0xF0, CHR 0x9F, CHR 0x94, CHR 0x97] @ '' Blocks other tasks''
         @ '' '' @ [CHR 0xE2, CHR 0x80, CHR 0xA2] @ '' ''
         @ [CHR 0xF0, CHR 0x9F, CHR 0x8E, CHR 0xAF] @ '' Prioritized for high impact''
   \<and> generate_explanation (TaskScorer ''fastest_wins'') task
         (Some [(''urgency'', 2), (''importance'', 5), (''effort'', 75 / 10), (''dependencies'', 0)])
       = [CHR 0xF0, CHR 0x9F, CHR 0x8E, CHR 0xAF] @ '' Prioritized as quick win''
   \<and> generate_explanation (TaskScorer ''smart_balance'') task
         (Some [(''urgency'', 2), (''importance'', 5), (''effort'', 75 / 10), (''dependencies'', 0)])
       = [CHR 0xF0, CHR 0x9F, CHR 0x93, CHR 0x8A] @ '' Balanced priority across all factors''"
proof -
  have general: "generate_explanation self task (Some comps) =
      (case explanation_reasons self (Some comps) of
         [] \<Rightarrow> balanced_message
       | t # ts \<Rightarrow> t @ concat (map (\<lambda>x. bullet_separator @ x) ts))"
    by (cases "explanation_reasons self (Some comps)")
       (simp_all add: generate_explanation_def py_join_concat)
  have reasons: "explanation_reasons self (Some comps) =
      (let u = (case map_of comps ''urgency'' of None \<Rightarrow> 0 | Some v \<Rightarrow> v);
        i = (case map_of comps ''importance'' of None \<Rightarrow> 0 | Some v \<Rightarrow> v);
        e = (case map_of comps ''effort'' of None \<Rightarrow> 0 | Some v \<Rightarrow> v);
        d = (case map_of comps ''dependencies'' of None \<Rightarrow> 0 | Some v \<Rightarrow> v)
       in (if 8 \<le> u then [tag_due_very_soon]
           else if 6 \<le> u then [tag_due_within_week] else [])
          @ (if 8 \<le> i then [tag_high_importance]
             else if 6 \<le> i then [tag_medium_high_importance] else [])
          @ (if 8 \<le> e then [tag_quick_win] else [])
          @ (if 7 \<le> d then [tag_multiple_depend]
             else if 4 \<le> d then [tag_blocks_others] else [])
          @ (if strategy self = ''fastest_wins'' \<and> 7 \<le> e then [tag_prioritized_quick_win]
             else if strategy self = ''high_impact'' \<and> 7 \<le> i then [tag_prioritized_high_impact]
             else if strategy self = ''deadline_driven'' \<and> 7 \<le> u then [tag_prioritized_deadline]
             else []))"
    by (simp add: explanation_reasons_def component_get_map_of Let_def)
  have nonempty: "generate_explanation self task (Some comps) \<noteq> []"
  proof (cases "explanation_reasons self (Some comps) = []")
    case True
    then show ?thesis by (simp add: generate_explanation_def balanced_message_def)
  next
    case False
    with py_join_nonempty[OF False explanation_reasons_nonempty_tags]
    show ?thesis by (simp add: generate_explanation_def)
  qed
  have none: "generate_explanation self task None = balanced_message"
    by (simp add: generate_explanation_def explanation_reasons_def component_get_def Let_def)
  have ex1: "generate_explanation (TaskScorer ''deadline_driven'') task
         (Some [(''urgency'', 95 / 10), (''importance'', 9), (''effort'', 9), (''dependencies'', 7)])
       = [CHR 0xE2, CHR 0x9A, CHR 0xA0, CHR 0xEF, CHR 0xB8, CHR 0x8F] @ '' Due very soon or overdue''
         @ '' '' @ [CHR 0xE2, CHR 0x80, CHR 0xA2] @ '' ''
         @ [CHR 0xE2, CHR 0xAD, CHR 0x90] @ '' High importance''
         @ '' '' @ [CHR 0xE2, CHR 0x80, CHR 0xA2] @ '' ''
         @ [CHR 0xE2, CHR 0x9A, CHR 0xA1] @ '' Quick win (low effort)''
         @ '' '' @ [CHR 0xE2, CHR 0x80, CHR 0xA2] @ '' ''
         @ [CHR 0xF0, CHR 0x9F, CHR 0x94, CHR 0x97] @ '' Multiple tasks depend on this''
         @ '' '' @ [CHR 0xE2, CHR 0x80, CHR 0xA2] @ '' ''
         @ [CHR 0xF0, CHR 0x9F, CHR 0x8E, CHR 0xAF] @ '' Prioritized by deadline''"
    by (simp add: generate_explanation_def explanation_reasons_def component_get_def Let_def
          TaskScorer_def tag_defs bullet_separator_def)
  have ex2: "generate_explanation (TaskScorer ''high_impact'') task
         (Some [(''urgency'', 6), (''importance'', 7), (''effort'', 4), (''dependencies'', 4)])
       = [CHR 0xF0, CHR 0x9F, CHR 0x93, CHR 0x85] @ '' Due within a week''
         @ '' '' @ [CHR 0xE2, CHR 0x80, CHR 0xA2] @ '' ''
         @ [CHR 0xF0, CHR 0x9F, CHR 0x94, CHR 0xB9] @ '' Medium-high importance''
         @ '' '' @ [CHR 0xE2, CHR 0x80, CHR 0xA2] @ '' ''
         @ [CHR 0xF0, CHR 0x9F, CHR 0x94, CHR 0x97] @ '' Blocks other tasks''
         @ '' '' @ [CHR 0xE2, CHR 0x80, CHR 0xA2] @ '' ''
         @ [CHR 0xF0, CHR 0x9F, CHR 0x8E, CHR 0xAF] @ '' Prioritized for high impact''"
    by (simp add: generate_explanation_def explanation_reasons_def component_get_def Let_def
          TaskScorer_def tag_defs bullet_separator_def)
  have ex3: "generate_explanation (TaskScorer ''fastest_wins'') task
         (Some [(''urgency'', 2), (''importance'', 5), (''effort'', 75 / 10), (''dependencies'', 0)])
       = [CHR 0xF0, CHR 0x9F, CHR 0x8E, CHR 0xAF] @ '' Prioritized as quick win''"
    by (simp add: generate_explanation_def explanation_reasons_def component_get_def Let_def
          TaskScorer_def tag_defs bullet_separator_def)
  have ex4: "generate_explanation (TaskScorer ''smart_balance'') task
         (Some [(''urgency'', 2), (''importance'', 5), (''effort'', 75 / 10), (''dependencies'', 0)])
       = [CHR 0xF0, CHR 0x9F, CHR 0x93, CHR 0x8A] @ '' Balanced priority across all factors''"
    by (simp add: generate_explanation_def explanation_reasons_def component_get_def Let_def
          TaskScorer_def tag_defs bullet_separator_def balanced_message_def)
  from general reasons nonempty none ex1 ex2 ex3 ex4 show ?thesis
    by (simp only: Let_def) simp
qed

section \<open>Properties of the cycle detection\<close>

lemmas dfs_eval =
  detect_circular_dependencies_def build_graph_def graph_get_def dfs.simps enter_def
  leave_def record_cycle_def Let_def

text \<open>
  Claim C1. For two tasks that depend on each other, \<^verbatim>\<open>detect_circular_dependencies\<close>
  returns exactly one cycle, the set of the two identifiers; for a linear chain of three
  tasks (the first without dependencies, the second depending on the first, the third
  on the second) it returns the empty list, and so it does when the chain is listed from
  its other end.
\<close>

theorem two_task_cycle_and_chain:
  assumes "a \<noteq> b" and "distinct [x, y, z]"
  shows "detect_circular_dependencies [(a, [b]), (b, [a])] = Inr [{a, b}]
       \<and> detect_circular_dependencies [(x, []), (y, [x]), (z, [y])] = Inr []
       \<and> detect_circular_dependencies [(z, [y]), (y, [x]), (x, [])] = Inr []"
proof (intro conjI)
  from assms(1) show "detect_circular_dependencies [(a, [b]), (b, [a])] = Inr [{a, b}]"
    by (auto simp: dfs_eval)
next
  from assms(2) show "detect_circular_dependencies [(x, []), (y, [x]), (z, [y])] = Inr []"
    by (auto simp: dfs_eval)
next
  from assms(2) show "detect_circular_dependencies [(z, [y]), (y, [x]), (x, [])] = Inr []"
    by (auto simp: dfs_eval)
qed

text \<open>The two task lists of the test suite, with the identifiers 1, 2, 3.\<close>

theorem two_task_cycle_and_chain_witness:
  "detect_circular_dependencies [(1 :: int, [2]), (2, [1])] = Inr [{1, 2}]
   \<and> detect_circular_dependencies [(1 :: int, []), (2, [1]), (3, [2])] = Inr []"
  using two_task_cycle_and_chain [of "1 :: int" 2 "1 :: int" 2 3] by simp

lemma list_index_last: "c \<notin> set p \<Longrightarrow> list_index (p @ [c]) c = Inr (length p)"
  by (induction p) auto

lemma list_index_member: "x \<in> set xs \<Longrightarrow> \<exists>i. list_index xs x = Inr i"
  by (induction xs) auto

lemma record_cycle_member:
  assumes "n \<in> set path"
  shows "\<exists>s'. record_cycle path n s = Inr s' \<and> visited s' = visited s \<and>
           rec_stack s' = rec_stack s \<and> set (cycles s) \<subseteq> set (cycles s')"
proof -
  from list_index_member[OF assms] obtain i where "list_index path n = Inr i" ..
  then show ?thesis by (auto simp: record_cycle_def Let_def)
qed

lemma record_cycle_self:
  "c \<notin> set p \<Longrightarrow> record_cycle (p @ [c]) c s = Inr s' \<Longrightarrow> {c} \<in> set (cycles s')"
  by (auto simp: record_cycle_def list_index_last Let_def split: if_splits)

lemma loops_recorded_mono:
  "loops_recorded graph s \<Longrightarrow> visited s' = visited s \<Longrightarrow> rec_stack s' = rec_stack s \<Longrightarrow>
     set (cycles s) \<subseteq> set (cycles s') \<Longrightarrow> loops_recorded graph s'"
  by (auto simp: loops_recorded_def)

lemma dfs_correct:
  "stack_inv path s \<Longrightarrow> node \<notin> visited s \<Longrightarrow> loops_recorded graph s \<Longrightarrow>
     \<exists>s'. dfs graph node path s = Inr s' \<and> dfs_post graph s s' \<and> node \<in> visited s'"
  "stack_inv path s \<Longrightarrow> loops_recorded graph s \<Longrightarrow>
     \<exists>s'. dfs_neighbors graph ns path s = Inr s' \<and> dfs_post graph s s' \<and>
          (\<forall>p c. path = p @ [c] \<longrightarrow> c \<notin> set p \<longrightarrow> c \<in> set ns \<longrightarrow> {c} \<in> set (cycles s'))"
proof (induction graph node path s and graph ns path s rule: dfs_dfs_neighbors.induct)
  case (1 graph node path s)
  let ?s1 = "enter node s"
  from "1.prems" have np: "node \<notin> set path" by (auto simp: stack_inv_def)
  have inv1: "stack_inv (path @ [node]) ?s1"
    using "1.prems"(1) by (auto simp: stack_inv_def enter_def)
  have lr1: "loops_recorded graph ?s1"
    using "1.prems"(3) by (auto simp: loops_recorded_def enter_def)
  from "1.IH"[OF inv1 lr1] obtain s2 where
    run: "dfs_neighbors graph (graph_get graph node) (path @ [node]) ?s1 = Inr s2"
    and post: "dfs_post graph ?s1 s2"
    and self: "\<forall>p c. path @ [node] = p @ [c] \<longrightarrow> c \<notin> set p \<longrightarrow> c \<in> set (graph_get graph node)
                 \<longrightarrow> {c} \<in> set (cycles s2)"
    by blast
  from post have rs2: "rec_stack s2 = insert node (rec_stack s)"
    and vs2: "insert node (visited s) \<subseteq> visited s2"
    and cy2: "set (cycles s) \<subseteq> set (cycles s2)"
    and lr2: "loops_recorded graph s2"
    by (auto simp: dfs_post_def enter_def)
  let ?s' = "s2\<lparr>rec_stack := rec_stack s2 - {node}\<rparr>"
  have lv: "leave node s2 = Inr ?s'" using rs2 by (simp add: leave_def)
  have res: "dfs graph node path s = Inr ?s'"
    by (simp add: dfs.simps run lv)
  have nrs: "node \<notin> rec_stack s" using "1.prems"(1) np by (simp add: stack_inv_def)
  have selfnode: "node \<in> set (graph_get graph node) \<Longrightarrow> {node} \<in> set (cycles s2)"
    using self np by blast
  have "loops_recorded graph ?s'"
    unfolding loops_recorded_def
  proof (intro allI impI)
    fix a
    assume a: "a \<in> visited ?s'" "a \<notin> rec_stack ?s'" "a \<in> set (graph_get graph a)"
    show "{a} \<in> set (cycles ?s')"
    proof (cases "a = node")
      case True
      with a(3) selfnode show ?thesis by simp
    next
      case False
      with a have "a \<in> visited s2" "a \<notin> rec_stack s2" by auto
      with lr2 a(3) show ?thesis by (auto simp: loops_recorded_def)
    qed
  qed
  then have "dfs_post graph s ?s'"
    using rs2 vs2 cy2 nrs by (auto simp: dfs_post_def)
  with res vs2 show ?case by auto
next
  case (2 graph path s)
  then show ?case by (simp add: dfs_post_def)
next
  case (3 graph neighbor rest path s)
  show ?case
  proof (cases "neighbor \<notin> visited s")
    case True
    from "3.IH"(1)[OF True "3.prems"(1) True "3.prems"(2)] obtain s1 where
      run1: "dfs graph neighbor path s = Inr s1" and post1: "dfs_post graph s s1" by blast
    from post1 "3.prems"(1) have inv1: "stack_inv path s1" and lr1: "loops_recorded graph s1"
      by (auto simp: dfs_post_def stack_inv_def)
    from "3.IH"(2)[OF True run1 inv1 lr1] obtain s2 where
      run2: "dfs_neighbors graph rest path s1 = Inr s2" and post2: "dfs_post graph s1 s2"
      and self2: "\<forall>p c. path = p @ [c] \<longrightarrow> c \<notin> set p \<longrightarrow> c \<in> set rest \<longrightarrow> {c} \<in> set (cycles s2)"
      by blast
    have res: "dfs_neighbors graph (neighbor # rest) path s = Inr s2"
      using True run1 run2 by simp
    have post: "dfs_post graph s s2" using post1 post2 by (auto simp: dfs_post_def)
    have "\<forall>p c. path = p @ [c] \<longrightarrow> c \<notin> set p \<longrightarrow> c \<in> set (neighbor # rest)
            \<longrightarrow> {c} \<in> set (cycles s2)"
    proof (intro allI impI)
      fix p c
      assume pc: "path = p @ [c]" "c \<notin> set p" "c \<in> set (neighbor # rest)"
      from pc(1) "3.prems"(1) have "c \<in> visited s" by (auto simp: stack_inv_def)
      with True have "c \<noteq> neighbor" by auto
      with pc self2 show "{c} \<in> set (cycles s2)" by auto
    qed
    with res post show ?thesis by blast
  next
    case False
    show ?thesis
    proof (cases "neighbor \<in> rec_stack s")
      case True
      then have inpath: "neighbor \<in> set path" using "3.prems"(1) by (simp add: stack_inv_def)
      from record_cycle_member[OF inpath, of s] obtain s1 where
        rc: "record_cycle path neighbor s = Inr s1" and v1: "visited s1 = visited s"
        and r1: "rec_stack s1 = rec_stack s" and c1: "set (cycles s) \<subseteq> set (cycles s1)"
        by blast
      have inv1: "stack_inv path s1" using "3.prems"(1) v1 r1 by (simp add: stack_inv_def)
      have lr1: "loops_recorded graph s1"
        using loops_recorded_mono[OF "3.prems"(2) v1 r1 c1] .
      from "3.IH"(3)[OF False True rc inv1 lr1] obtain s2 where
        run2: "dfs_neighbors graph rest path s1 = Inr s2" and post2: "dfs_post graph s1 s2"
        and self2: "\<forall>p c. path = p @ [c] \<longrightarrow> c \<notin> set p \<longrightarrow> c \<in> set rest
                      \<longrightarrow> {c} \<in> set (cycles s2)"
        by blast
      have res: "dfs_neighbors graph (neighbor # rest) path s = Inr s2"
        using False True rc run2 by simp
      have post: "dfs_post graph s s2"
        using post2 v1 r1 c1 by (auto simp: dfs_post_def)
      have "\<forall>p c. path = p @ [c] \<longrightarrow> c \<notin> set p \<longrightarrow> c \<in> set (neighbor # rest)
              \<longrightarrow> {c} \<in> set (cycles s2)"
      proof (intro allI impI)
        fix p c
        assume pc: "path = p @ [c]" "c \<notin> set p" "c \<in> set (neighbor # rest)"
        show "{c} \<in> set (cycles s2)"
        proof (cases "c = neighbor")
          case True
          with rc pc have "{c} \<in> set (cycles s1)" by (auto dest: record_cycle_self)
          with post2 show ?thesis by (auto simp: dfs_post_def)
        next
          case False
          with pc self2 show ?thesis by auto
        qed
      qed
      with res post show ?thesis by blast
    next
      case nr: False
      from "3.IH"(4)[OF False nr "3.prems"] obtain s2 where
        run2: "dfs_neighbors graph rest path s = Inr s2" and post2: "dfs_post graph s s2"
        and self2: "\<forall>p c. path = p @ [c] \<longrightarrow> c \<notin> set p \<longrightarrow> c \<in> set rest
                      \<longrightarrow> {c} \<in> set (cycles s2)"
        by blast
      have res: "dfs_neighbors graph (neighbor # rest) path s = Inr s2"
        using False nr run2 by simp
      have "\<forall>p c. path = p @ [c] \<longrightarrow> c \<notin> set p \<longrightarrow> c \<in> set (neighbor # rest)
              \<longrightarrow> {c} \<in> set (cycles s2)"
      proof (intro allI impI)
        fix p c
        assume pc: "path = p @ [c]" "c \<notin> set p" "c \<in> set (neighbor # rest)"
        from pc(1) "3.prems"(1) have "c \<in> rec_stack s" by (auto simp: stack_inv_def)
        with nr have "c \<noteq> neighbor" by auto
        with pc self2 show "{c} \<in> set (cycles s2)" by auto
      qed
      with res post2 show ?thesis by blast
    qed
  qed
qed

lemma check_all_nodes_correct:
  "rec_stack s = {} \<Longrightarrow> loops_recorded graph s \<Longrightarrow>
     \<exists>s'. check_all_nodes graph tasks s = Inr s' \<and> rec_stack s' = {} \<and>
          visited s \<union> fst ` set tasks \<subseteq> visited s' \<and> loops_recorded graph s'"
proof (induction graph tasks s rule: check_all_nodes.induct)
  case (1 graph s)
  then show ?case by simp
next
  case (2 graph task_id deps rest s)
  show ?case
  proof (cases "task_id \<notin> visited s")
    case True
    have inv: "stack_inv [] s" using "2.prems"(1) by (simp add: stack_inv_def)
    from dfs_correct(1)[OF inv True "2.prems"(2)] obtain s1 where
      run1: "dfs graph task_id [] s = Inr s1" and post1: "dfs_post graph s s1"
      and v1: "task_id \<in> visited s1" by blast
    from post1 "2.prems"(1) have r1: "rec_stack s1 = {}" and lr1: "loops_recorded graph s1"
      and vs: "visited s \<subseteq> visited s1"
      by (auto simp: dfs_post_def)
    from "2.IH"(1)[OF True run1 r1 lr1] obtain s2 where
      "check_all_nodes graph rest s1 = Inr s2" "rec_stack s2 = {}"
      "visited s1 \<union> fst ` set rest \<subseteq> visited s2" "loops_recorded graph s2" by blast
    with True run1 v1 vs show ?thesis by auto
  next
    case False
    from "2.IH"(2)[OF False "2.prems"] obtain s2 where
      "check_all_nodes graph rest s = Inr s2" "rec_stack s2 = {}"
      "visited s \<union> fst ` set rest \<subseteq> visited s2" "loops_recorded graph s2" by blast
    with False show ?thesis by auto
  qed
qed

lemma map_of_foldl_update:
  "map_of (foldl (\<lambda>graph (task_id, deps). AList.update task_id deps graph) g tasks)
     = map_of g ++ map_of (rev tasks)"
proof (induction tasks arbitrary: g)
  case Nil
  then show ?case by simp
next
  case (Cons t tasks)
  obtain k v where t: "t = (k, v)" by (cases t)
  have "map_of (AList.update k v g) ++ map_of (rev tasks)
        = map_of g ++ (map_of (rev tasks @ [(k, v)]))"
    by (simp add: update_conv' map_add_upd_left fun_eq_iff map_add_def split: option.splits)
  with Cons[of "AList.update k v g"] t show ?case by simp
qed

lemma map_of_build_graph: "map_of (build_graph tasks) = map_of (rev tasks)"
  by (simp add: build_graph_def map_of_foldl_update)

lemma abstract_self_loop_reported:
  assumes "map_of (rev tasks) a = Some deps" and "a \<in> set deps"
  shows "\<exists>found. detect_circular_dependencies tasks = Inr found \<and> {a} \<in> set found"
proof -
  let ?g = "build_graph tasks"
  let ?s0 = "\<lparr>visited = {}, rec_stack = {}, cycles = []\<rparr> :: 'a dfs_state"
  have "rec_stack ?s0 = {}" "loops_recorded ?g ?s0" by (simp_all add: loops_recorded_def)
  from check_all_nodes_correct[OF this, of tasks] obtain s' where
    run: "check_all_nodes ?g tasks ?s0 = Inr s'" and rs: "rec_stack s' = {}"
    and vs: "fst ` set tasks \<subseteq> visited s'" and lr: "loops_recorded ?g s'" by auto
  from assms(1) have "(a, deps) \<in> set (rev tasks)" by (rule map_of_SomeD)
  then have "a \<in> fst ` set tasks" by force
  with vs have av: "a \<in> visited s'" by auto
  have "graph_get ?g a = deps" using assms(1) by (simp add: graph_get_def map_of_build_graph)
  with assms(2) av rs lr have "{a} \<in> set (cycles s')" by (auto simp: loops_recorded_def)
  with run show ?thesis by (simp add: detect_circular_dependencies_def)
qed

subsection \<open>The detector on the task dictionaries\<close>

lemmas dfs_py_eval =
  detect_circular_dependencies_py_def task_key_def task_id_value_def
  task_dependencies_value_def dict_get_def dict_get_default_def py_hash_key_def py_iter_def
  graph_get_py_def dfs_py.simps enter_def leave_def record_cycle_def Let_def

text \<open>The failures: an unhashable dependency entry raises \<^verbatim>\<open>TypeError\<close> although the
  self-loop before it was found, and a chain longer than the recursion limit raises
  \<^verbatim>\<open>RecursionError\<close>.\<close>

lemma unhashable_dependency_raises:
  "detect_circular_dependencies_py 1000
     [PDict [(''id'', PInt 1), (''dependencies'', PList [PInt 1, PList [PInt 2]])]]
   = Inl TypeError"
  by (simp add: dfs_py_eval)

lemma deep_chain_raises:
  "detect_circular_dependencies_py 2
     [PDict [(''id'', PInt 1), (''dependencies'', PList [PInt 2])],
      PDict [(''id'', PInt 2), (''dependencies'', PList [PInt 3])],
      PDict [(''id'', PInt 3), (''dependencies'', PList [PInt 3])]]
   = Inl RecursionError"
  by (simp add: dfs_py_eval)

text \<open>On well-formed tasks, fewer than the recursion limit allows, the detector on the
  dictionaries computes what the traversal on the keys computes.\<close>

lemma plain_key_hash: "plain_key v \<Longrightarrow> py_hash_key v = Inr (the_key v)"
  by (cases v) (simp_all add: plain_key_def the_key_def py_hash_key_def)

lemma plain_dependencies_iter:
  assumes "plain_dependencies v"
  obtains xs where "v = PList xs" "py_iter v = Inr xs" "list_all plain_key xs"
  using assms by (cases v) (simp_all add: plain_dependencies_def py_iter_def)

lemma map_of_abs_graph: "map_of (abs_graph g) k = map_option keys_list (map_of g k)"
  by (induction g) (auto simp: abs_graph_def)

lemma graph_get_abs: "graph_get (abs_graph g) node = keys_list (graph_get_py g node)"
  by (simp add: graph_get_def graph_get_py_def map_of_abs_graph keys_list_def py_iter_def
        split: option.splits)

lemma plain_graph_get: "plain_graph g \<Longrightarrow> plain_dependencies (graph_get_py g node)"
proof (cases "map_of g node")
  case None
  then show ?thesis by (simp add: graph_get_py_def plain_dependencies_def)
next
  case (Some v)
  assume "plain_graph g"
  moreover from Some have "(node, v) \<in> set g" by (rule map_of_SomeD)
  ultimately have "plain_dependencies v" by (auto simp: plain_graph_def list_all_iff)
  with Some show ?thesis by (simp add: graph_get_py_def)
qed

lemma graph_get_py_nonempty:
  "py_iter (graph_get_py g node) = Inr ns \<Longrightarrow> ns \<noteq> [] \<Longrightarrow> node \<in> fst ` set g"
  by (cases "map_of g node")
     (auto simp: graph_get_py_def py_iter_def dest!: map_of_SomeD intro: rev_image_eqI)

lemma stack_inv_post: "stack_inv path s \<Longrightarrow> dfs_post graph s s' \<Longrightarrow> stack_inv path s'"
  by (auto simp: stack_inv_def dfs_post_def)

lemma dfs_py_refines:
  "plain_graph g \<Longrightarrow> stack_inv path s \<Longrightarrow> distinct path \<Longrightarrow> set path \<subseteq> fst ` set g \<Longrightarrow>
     node \<notin> visited s \<Longrightarrow> loops_recorded (abs_graph g) s \<Longrightarrow> length g < limit \<Longrightarrow>
     dfs_py limit g node path s = dfs (abs_graph g) node path s"
  "plain_graph g \<Longrightarrow> list_all plain_key ns \<Longrightarrow> stack_inv path s \<Longrightarrow> distinct path \<Longrightarrow>
     ns = [] \<or> set path \<subseteq> fst ` set g \<Longrightarrow> loops_recorded (abs_graph g) s \<Longrightarrow>
     length g < limit \<Longrightarrow>
     dfs_neighbors_py limit g ns path s = dfs_neighbors (abs_graph g) (map the_key ns) path s"
proof (induction limit g node path s and limit g ns path s rule: dfs_py_dfs_neighbors_py.induct)
  case (1 limit g node path s)
  have "card (set path) \<le> card (fst ` set g)"
    using "1.prems"(4) by (intro card_mono) auto
  also have "\<dots> \<le> length g" by (metis card_image_le card_length le_trans List.finite_set)
  finally have "length path \<le> length g" using "1.prems"(3) by (simp add: distinct_card)
  with "1.prems"(7) have depth: "\<not> limit \<le> length path" by simp
  from plain_graph_get[OF "1.prems"(1), of node] obtain ns where
    it: "py_iter (graph_get_py g node) = Inr ns" and pl: "list_all plain_key ns"
    by (rule plain_dependencies_iter)
  have np: "node \<notin> set path" using "1.prems"(2,5) by (auto simp: stack_inv_def)
  have inv1: "stack_inv (path @ [node]) (enter node s)"
    using "1.prems"(2) by (auto simp: stack_inv_def enter_def)
  have d1: "distinct (path @ [node])" using "1.prems"(3) np by simp
  have sub1: "ns = [] \<or> set (path @ [node]) \<subseteq> fst ` set g"
    using graph_get_py_nonempty[OF it] "1.prems"(4) by auto
  have lr1: "loops_recorded (abs_graph g) (enter node s)"
    using "1.prems"(6) by (auto simp: loops_recorded_def enter_def)
  have "dfs_neighbors_py limit g ns (path @ [node]) (enter node s)
        = dfs_neighbors (abs_graph g) (map the_key ns) (path @ [node]) (enter node s)"
    using "1.IH"[OF depth it "1.prems"(1) pl inv1 d1 sub1 lr1 "1.prems"(7)] .
  moreover have "graph_get (abs_graph g) node = map the_key ns"
    using it by (simp add: graph_get_abs keys_list_def)
  ultimately show ?case using depth it by (simp add: dfs_py.simps dfs.simps)
next
  case (2 limit g path s)
  then show ?case by simp
next
  case (3 limit g neighbor rest path s)
  from "3.prems"(2) have pk: "plain_key neighbor" and pr: "list_all plain_key rest" by simp_all
  let ?k = "the_key neighbor"
  have hk: "py_hash_key neighbor = Inr ?k" using pk by (rule plain_key_hash)
  have sub: "set path \<subseteq> fst ` set g" using "3.prems"(5) by simp
  have subr: "rest = [] \<or> set path \<subseteq> fst ` set g" using sub by simp
  show ?case
  proof (cases "?k \<notin> visited s")
    case True
    have eq1: "dfs_py limit g ?k path s = dfs (abs_graph g) ?k path s"
      using "3.IH"(1)[OF hk True "3.prems"(1,3,4) sub True "3.prems"(6,7)] .
    show ?thesis
    proof (cases "dfs (abs_graph g) ?k path s")
      case (Inl e)
      with eq1 hk True show ?thesis by simp
    next
      case (Inr s1)
      from dfs_correct(1)[OF "3.prems"(3) True "3.prems"(6)] Inr
      have post: "dfs_post (abs_graph g) s s1" by auto
      then have inv1: "stack_inv path s1" using "3.prems"(3) by (rule stack_inv_post[rotated])
      from post have lr1: "loops_recorded (abs_graph g) s1" by (simp add: dfs_post_def)
      have run: "dfs_py limit g ?k path s = Inr s1" using eq1 Inr by simp
      have "dfs_neighbors_py limit g rest path s1
            = dfs_neighbors (abs_graph g) (map the_key rest) path s1"
        using "3.IH"(2)[OF hk True run "3.prems"(1) pr inv1 "3.prems"(4) subr lr1 "3.prems"(7)] .
      with hk True run Inr show ?thesis by simp
    qed
  next
    case False
    show ?thesis
    proof (cases "?k \<in> rec_stack s")
      case True
      show ?thesis
      proof (cases "record_cycle path ?k s")
        case (Inl e)
        with hk False True show ?thesis by simp
      next
        case (Inr s1)
        have inpath: "?k \<in> set path" using True "3.prems"(3) by (simp add: stack_inv_def)
        from record_cycle_member[OF inpath, of s] Inr
        have v1: "visited s1 = visited s" and r1: "rec_stack s1 = rec_stack s"
          and c1: "set (cycles s) \<subseteq> set (cycles s1)" by auto
        have inv1: "stack_inv path s1" using "3.prems"(3) v1 r1 by (simp add: stack_inv_def)
        have lr1: "loops_recorded (abs_graph g) s1"
          using loops_recorded_mono[OF "3.prems"(6) v1 r1 c1] .
        have "dfs_neighbors_py limit g rest path s1
              = dfs_neighbors (abs_graph g) (map the_key rest) path s1"
          using "3.IH"(3)[OF hk False True Inr "3.prems"(1) pr inv1 "3.prems"(4) subr lr1
              "3.prems"(7)] .
        with hk False True Inr show ?thesis by simp
      qed
    next
      case nr: False
      have "dfs_neighbors_py limit g rest path s
            = dfs_neighbors (abs_graph g) (map the_key rest) path s"
        using "3.IH"(4)[OF hk False nr "3.prems"(1) pr "3.prems"(3,4) subr "3.prems"(6,7)] .
      with hk False nr show ?thesis by simp
    qed
  qed
qed

lemma well_formed_task_key:
  "well_formed_task t \<Longrightarrow> task_key t = Inr (fst (abs_task t))"
  by (cases t) (simp_all add: well_formed_task_def task_key_def abs_task_def plain_key_hash)

lemma check_all_nodes_py_refines:
  "plain_graph g \<Longrightarrow> list_all well_formed_task tasks \<Longrightarrow> rec_stack s = {} \<Longrightarrow>
     loops_recorded (abs_graph g) s \<Longrightarrow> length g < limit \<Longrightarrow>
     check_all_nodes_py limit g tasks s = check_all_nodes (abs_graph g) (map abs_task tasks) s"
proof (induction tasks arbitrary: s)
  case Nil
  then show ?case by simp
next
  case (Cons t tasks)
  obtain k deps where at: "abs_task t = (k, deps)" by (cases "abs_task t")
  from Cons.prems(2) have wt: "well_formed_task t" and wr: "list_all well_formed_task tasks"
    by simp_all
  have tk: "task_key t = Inr k" using well_formed_task_key[OF wt] at by simp
  have inv: "stack_inv [] s" using Cons.prems(3) by (simp add: stack_inv_def)
  show ?case
  proof (cases "k \<notin> visited s")
    case True
    have eq1: "dfs_py limit g k [] s = dfs (abs_graph g) k [] s"
      using dfs_py_refines(1)[OF Cons.prems(1) inv _ _ True Cons.prems(4,5)] by simp
    show ?thesis
    proof (cases "dfs (abs_graph g) k [] s")
      case (Inl e)
      with eq1 tk at True show ?thesis by simp
    next
      case (Inr s1)
      from dfs_correct(1)[OF inv True Cons.prems(4)] Inr
      have post: "dfs_post (abs_graph g) s s1" by auto
      then have r1: "rec_stack s1 = {}" and lr1: "loops_recorded (abs_graph g) s1"
        using Cons.prems(3) by (simp_all add: dfs_post_def)
      from Cons.IH[OF Cons.prems(1) wr r1 lr1 Cons.prems(5)] eq1 Inr tk at True
      show ?thesis by simp
    qed
  next
    case False
    from Cons.IH[OF Cons.prems(1) wr Cons.prems(3,4,5)] tk at False
    show ?thesis by simp
  qed
qed

lemma abs_graph_update:
  "abs_graph (AList.update k v g) = AList.update k (keys_list v) (abs_graph g)"
  by (induction g) (auto simp: abs_graph_def)

lemma plain_graph_update:
  "plain_graph g \<Longrightarrow> plain_dependencies v \<Longrightarrow> plain_graph (AList.update k v g)"
  by (induction g) (auto simp: plain_graph_def)

lemma length_update_le: "length (AList.update k v g) \<le> Suc (length g)"
  by (induction g) auto

lemma build_graph_py_refines:
  "list_all well_formed_task tasks \<Longrightarrow> plain_graph g0 \<Longrightarrow>
     \<exists>g. build_graph_py tasks g0 = Inr g \<and> plain_graph g \<and>
         abs_graph g = foldl (\<lambda>graph (task_id, deps). AList.update task_id deps graph)
                         (abs_graph g0) (map abs_task tasks) \<and>
         length g \<le> length g0 + length tasks"
proof (induction tasks arbitrary: g0)
  case Nil
  then show ?case by simp
next
  case (Cons t tasks)
  from Cons.prems(1) have wt: "well_formed_task t" and wr: "list_all well_formed_task tasks"
    by simp_all
  from wt obtain d where t: "t = PDict d" and pk: "plain_key (task_id_value d)"
    and pd: "plain_dependencies (task_dependencies_value d)"
    by (cases t) (simp_all add: well_formed_task_def)
  let ?g1 = "AList.update (the_key (task_id_value d)) (task_dependencies_value d) g0"
  have p1: "plain_graph ?g1" using Cons.prems(2) pd by (rule plain_graph_update)
  from Cons.IH[OF wr p1] obtain g where
    b: "build_graph_py tasks ?g1 = Inr g" and pg: "plain_graph g"
    and ag: "abs_graph g = foldl (\<lambda>graph (task_id, deps). AList.update task_id deps graph)
                         (abs_graph ?g1) (map abs_task tasks)"
    and lg: "length g \<le> length ?g1 + length tasks" by blast
  have "build_graph_py (t # tasks) g0 = Inr g"
    using b t by (simp add: plain_key_hash[OF pk])
  moreover have "abs_graph g = foldl (\<lambda>graph (task_id, deps). AList.update task_id deps graph)
                         (abs_graph g0) (map abs_task (t # tasks))"
    using ag t by (simp add: abs_graph_update abs_task_def)
  moreover have "length g \<le> length g0 + length (t # tasks)"
    using lg length_update_le[of "the_key (task_id_value d)" "task_dependencies_value d" g0]
    by simp
  ultimately show ?case using pg by blast
qed

lemma detect_py_refines:
  assumes "list_all well_formed_task tasks" and "length tasks < limit"
  shows "detect_circular_dependencies_py limit tasks
         = detect_circular_dependencies (map abs_task tasks)"
proof -
  have "plain_graph []" by (simp add: plain_graph_def)
  from build_graph_py_refines[OF assms(1) this] obtain g where
    b: "build_graph_py tasks [] = Inr g" and pg: "plain_graph g"
    and ag: "abs_graph g = build_graph (map abs_task tasks)" and lg: "length g \<le> length tasks"
    by (auto simp: build_graph_def abs_graph_def)
  let ?s0 = "\<lparr>visited = {}, rec_stack = {}, cycles = []\<rparr> :: pykey dfs_state"
  have "check_all_nodes_py limit g tasks ?s0
        = check_all_nodes (abs_graph g) (map abs_task tasks) ?s0"
    using lg assms(2) by (intro check_all_nodes_py_refines[OF pg assms(1)])
      (simp_all add: loops_recorded_def)
  with b ag show ?thesis
    by (simp add: detect_circular_dependencies_py_def detect_circular_dependencies_def)
qed

lemma flt_eq_the: "f \<noteq> NaN \<Longrightarrow> g \<noteq> NaN \<Longrightarrow> flt_eq f g \<Longrightarrow> f = g"
  by (cases f; cases g) simp_all

lemma py_eq_plain_key:
  "plain_key x \<Longrightarrow> plain_key y \<Longrightarrow> py_eq x y \<Longrightarrow> the_key x = the_key y"
  by (cases x; cases y)
     (auto simp: plain_key_def the_key_def py_hash_key_def dest: flt_eq_the
           split: pyfloat.splits if_splits)

text \<open>
  Claim C9, as amended. Let the tasks be well formed and fewer than the recursion limit
  allows. Then for every task whose dependencies list contains its own identifier and
  that is the last task of the list carrying this identifier (always so when the
  identifiers are pairwise different), \<^verbatim>\<open>detect_circular_dependencies\<close> returns, and the
  singleton set of the identifier is among the cycles it reports.
\<close>

theorem last_self_loop_reported:
  assumes "list_all well_formed_task tasks"
    and "length tasks < limit"
    and "tasks = before @ PDict d # after"
    and "task_key (PDict d) = Inr a"
    and "list_all (\<lambda>t. task_key t \<noteq> Inr a) after"
    and "task_dependencies_value d = PList deps"
    and "list_ex (\<lambda>e. py_eq e (task_id_value d)) deps"
  shows "\<exists>found. detect_circular_dependencies_py limit tasks = Inr found \<and> {a} \<in> set found"
proof -
  from assms(1,3) have wd: "well_formed_task (PDict d)"
    and wa: "list_all well_formed_task after" by simp_all
  from wd have pk: "plain_key (task_id_value d)" and pd: "list_all plain_key deps"
    using assms(6) by (simp_all add: well_formed_task_def plain_dependencies_def)
  have a: "a = the_key (task_id_value d)"
    using assms(4) pk by (simp add: task_key_def plain_key_hash)
  have kl: "keys_list (task_dependencies_value d) = map the_key deps"
    using assms(6) by (simp add: keys_list_def py_iter_def)
  have at: "abs_task (PDict d) = (a, map the_key deps)" by (simp add: abs_task_def a kl)
  have "map_of (map abs_task after) a = None"
  proof -
    have "a \<notin> fst ` set (map abs_task after)"
    proof
      assume "a \<in> fst ` set (map abs_task after)"
      then obtain t where t: "t \<in> set after" and k: "fst (abs_task t) = a" by auto
      from wa t have "well_formed_task t" by (simp add: list_all_iff)
      then have "task_key t = Inr a" using k by (simp add: well_formed_task_key)
      moreover from assms(5) t have "task_key t \<noteq> Inr a" by (simp add: list_all_iff)
      ultimately show False by simp
    qed
    then show ?thesis by (simp add: map_of_eq_None_iff)
  qed
  then have "map_of (rev (map abs_task after)) a = None"
    by (simp add: map_of_eq_None_iff)
  then have m: "map_of (rev (map abs_task tasks)) a = Some (map the_key deps)"
    by (simp add: assms(3) at map_add_def)
  from assms(7) obtain e where e: "e \<in> set deps" and pe: "py_eq e (task_id_value d)"
    by (auto simp: list_ex_iff)
  from pd e have "plain_key e" by (simp add: list_all_iff)
  from py_eq_plain_key[OF this pk pe] have "the_key e = a" by (simp add: a)
  with e have "a \<in> set (map the_key deps)" by force
  from abstract_self_loop_reported[OF m this]
  show ?thesis by (simp add: detect_py_refines[OF assms(1,2)])
qed

text \<open>A self-loop on task 1, which task 2 depends on.\<close>

theorem last_self_loop_reported_witness:
  "\<exists>found. detect_circular_dependencies_py 1000
       [PDict [(''id'', PInt 1), (''dependencies'', PList [PInt 1])],
        PDict [(''id'', PInt 2), (''dependencies'', PList [PInt 1])]] = Inr found
     \<and> {KNum 1} \<in> set found"
  using last_self_loop_reported [of
      "[PDict [(''id'', PInt 1), (''dependencies'', PList [PInt 1])],
        PDict [(''id'', PInt 2), (''dependencies'', PList [PInt 1])]]"
      1000 "[]" "[(''id'', PInt 1), (''dependencies'', PList [PInt 1])]"
      "[PDict [(''id'', PInt 2), (''dependencies'', PList [PInt 1])]]" "KNum 1" "[PInt 1]"]
  by (simp add: well_formed_task_def plain_key_def plain_dependencies_def task_id_value_def
        task_dependencies_value_def dict_get_def dict_get_default_def task_key_def
        py_hash_key_def)

text \<open>Two tasks with the same identifier: the first lists itself, the second has no
  dependencies and replaces the first in the graph. No cycle is reported.\<close>

theorem shadowed_self_loop_unreported:
  "detect_circular_dependencies_py 1000
     [PDict [(''id'', PInt 2), (''dependencies'', PList [PInt 2])],
      PDict [(''id'', PInt 2), (''dependencies'', PList [])]] = Inr []"
  by (simp add: dfs_py_eval)

end
